theory Spec2Isabelle
  imports Complex_Main "HOL-Library.Word" "HOL-Library.Multiset"
begin

section \<open>The schema IR (yema.go)\<close>

text \<open>
  \<^verbatim>\<open>type Kind uint\<close> with its constants in the order of the \<^verbatim>\<open>iota\<close> block. The constants
  carry the prefix \<open>K\<close> because \<open>Int\<close> is taken by HOL's syntax.
\<close>

datatype Kind = KInvalid | KBool | KInt | KInt8 | KInt16 | KInt32 | KInt64
  | KUint | KUint8 | KUint16 | KUint32 | KUint64 | KFloat32 | KFloat64
  | KArray | KStruct | KString | KBytes

text \<open>
  \<^verbatim>\<open>type Type struct { Kind; Optional; Struct *map[string]Type; Array *Type }\<close>.
  A pointer is an \<open>option\<close> (\<open>None\<close> is \<^verbatim>\<open>nil\<close>). A Go map is an association list; where
  the code ranges over a map, the order of the visit is an input of the model, not a property of
  the list.
\<close>

datatype Type = Type (Kind: Kind) (Optional: bool)
  (Struct: "(string \<times> Type) list option") (Array: "Type option")

section \<open>Dynamic values (Go's interface{})\<close>

text \<open>
  A \<^verbatim>\<open>float64\<close> (or \<^verbatim>\<open>float32\<close>) value: a finite value, given by the real number it
  denotes, an infinity or a NaN. The finite values of the model stand for representable floats.
\<close>

datatype gofloat = Finite real | PosInf | NegInf | NaN

text \<open>
  The dynamic types the validator and the parser distinguish. Go's \<^verbatim>\<open>int\<close> and \<^verbatim>\<open>uint\<close> are
  taken at 64 bits. \<open>VNumber\<close> is \<^verbatim>\<open>json.Number\<close>, a string; \<open>VOther\<close> is a value of any
  other dynamic type.
\<close>

datatype val =
    VNil
  | VBool bool
  | VString string
  | VNumber string
  | VInt "64 word" | VInt8 "8 word" | VInt16 "16 word" | VInt32 "32 word" | VInt64 "64 word"
  | VUint "64 word" | VUint8 "8 word" | VUint16 "16 word" | VUint32 "32 word" | VUint64 "64 word"
  | VFloat32 gofloat
  | VFloat64 gofloat
  | VBytes "8 word list"
  | VArray "val list"
  | VMap "(string \<times> val) list"
  | VOther

text \<open>\<^verbatim>\<open>value, exists := m[key]\<close> on a \<^verbatim>\<open>map[string]interface{}\<close>.\<close>

definition lookup :: "(string \<times> val) list \<Rightarrow> string \<Rightarrow> val option" where
  "lookup m k = map_of m k"

section \<open>Library functions the validator calls\<close>

text \<open>
  \<^verbatim>\<open>strconv.ParseInt(s, 10, 64)\<close>, which is what \<^verbatim>\<open>json.Number.Int64\<close> calls, after the
  standard library: an optional sign, then decimal digits only; the digits are accumulated by
  \<^verbatim>\<open>ParseUint\<close>, which stops with a range error as soon as the value leaves 64 bits.
\<close>

datatype parse_error = ErrSyntax | ErrRange

definition isDigit :: "char \<Rightarrow> bool" where
  "isDigit c = ((48::nat) \<le> of_char c \<and> of_char c \<le> (57::nat))"

definition digitVal :: "char \<Rightarrow> nat" where
  "digitVal c = of_char c - 48"

definition maxUint64 :: nat where
  "maxUint64 = 2 ^ 64 - 1"

fun parseDigits :: "string \<Rightarrow> nat \<Rightarrow> nat \<times> parse_error option" where
  "parseDigits [] n = (n, None)"
| "parseDigits (c # cs) n =
     (if \<not> isDigit c then (0, Some ErrSyntax)
      else if n \<ge> maxUint64 div 10 + 1 then (maxUint64, Some ErrRange)
      else if n * 10 + digitVal c > maxUint64 then (maxUint64, Some ErrRange)
      else parseDigits cs (n * 10 + digitVal c))"

definition ParseUint :: "string \<Rightarrow> nat \<times> parse_error option" where
  "ParseUint s = (if s = [] then (0, Some ErrSyntax) else parseDigits s 0)"

definition ParseInt :: "string \<Rightarrow> 64 word \<times> parse_error option" where
  "ParseInt s =
     (if s = [] then (0, Some ErrSyntax)
      else
        let neg = (hd s = CHR ''-'');
            s' = (if hd s = CHR ''+'' \<or> hd s = CHR ''-'' then tl s else s);
            (un, err) = ParseUint s'
        in if err \<noteq> None \<and> err \<noteq> Some ErrRange then (0, err)
           else if \<not> neg \<and> un \<ge> 2 ^ 63 then (word_of_nat (2 ^ 63 - 1), Some ErrRange)
           else if neg \<and> un > 2 ^ 63 then (- word_of_nat (2 ^ 63), Some ErrRange)
           else (if neg then - word_of_nat un else word_of_nat un, None))"

text \<open>
  \<^verbatim>\<open>strconv.Itoa\<close> on the index of a \<^verbatim>\<open>range\<close> loop, which is never negative.
\<close>

function Itoa :: "nat \<Rightarrow> string" where
  "Itoa n =
     (if n < 10 then [''0123456789'' ! n] else Itoa (n div 10) @ [''0123456789'' ! (n mod 10)])"
  by pat_completeness auto
termination
  by (relation "measure id") auto

declare Itoa.simps [simp del]

text \<open>
  Conversions between floats and integers. \<^verbatim>\<open>int64(v)\<close> and \<^verbatim>\<open>uint64(v)\<close> truncate towards
  zero; where the truncated value does not fit, Go leaves the result to the implementation, and
  the model takes \<open>indefinite\<close>, the value amd64 produces. \<^verbatim>\<open>float64(n)\<close> is taken exactly: the
  code applies it only to the truncation of a float, which a float represents exactly.
\<close>

definition trunc :: "real \<Rightarrow> int" where
  "trunc x = (if 0 \<le> x then \<lfloor>x\<rfloor> else \<lceil>x\<rceil>)"

definition indefinite :: "64 word" where
  "indefinite = word_of_int (- (2 ^ 63))"

definition int64_of_float :: "gofloat \<Rightarrow> 64 word" where
  "int64_of_float v =
     (case v of
        Finite x \<Rightarrow>
          if - (2 ^ 63) \<le> trunc x \<and> trunc x < 2 ^ 63 then word_of_int (trunc x) else indefinite
      | _ \<Rightarrow> indefinite)"

definition uint64_of_float :: "gofloat \<Rightarrow> 64 word" where
  "uint64_of_float v =
     (case v of
        Finite x \<Rightarrow>
          if 0 \<le> trunc x \<and> trunc x < 2 ^ 64 then word_of_int (trunc x) else indefinite
      | _ \<Rightarrow> indefinite)"

definition float_of_int64 :: "64 word \<Rightarrow> gofloat" where
  "float_of_int64 w = Finite (of_int (sint w))"

definition float_of_uint64 :: "64 word \<Rightarrow> gofloat" where
  "float_of_uint64 w = Finite (of_int (uint w))"

text \<open>The comparisons of floats the code uses: a NaN is equal to nothing and ordered with nothing.\<close>

fun float_eq :: "gofloat \<Rightarrow> gofloat \<Rightarrow> bool" where
  "float_eq (Finite x) (Finite y) = (x = y)"
| "float_eq PosInf PosInf = True"
| "float_eq NegInf NegInf = True"
| "float_eq _ _ = False"

fun float_less :: "gofloat \<Rightarrow> gofloat \<Rightarrow> bool" where
  "float_less NaN _ = False"
| "float_less _ NaN = False"
| "float_less PosInf _ = False"
| "float_less _ NegInf = False"
| "float_less NegInf _ = True"
| "float_less _ PosInf = True"
| "float_less (Finite x) (Finite y) = (x < y)"

definition float_le :: "gofloat \<Rightarrow> gofloat \<Rightarrow> bool" where
  "float_le a b = (float_less a b \<or> float_eq a b)"

section \<open>The validator (validator/validator.go)\<close>

text \<open>
  The errors of the validator, one constructor for each format string of \<^verbatim>\<open>fmt.Errorf\<close>, with the
  arguments the format takes: the path, and for a range error the name of the kind as the
  message spells it. \<open>render\<close> gives the text of the message.
\<close>

datatype verror =
    InvalidSchema
  | RequiredFieldMissing string
  | NilNotOptional string
  | MustBeBoolean string
  | MustBeString string
  | MustBeInteger string
  | MustBeNonNegativeInteger string
  | MustBeNumber string
  | MustBeArray string
  | MustBeMap string
  | MustBeBytes string
  | ArrayDefinitionNil string
  | StructDefinitionNil string
  | OutOfRange string string
  | UnsupportedType Kind string

fun kindNumber :: "Kind \<Rightarrow> nat" where
  "kindNumber KInvalid = 0" | "kindNumber KBool = 1" | "kindNumber KInt = 2"
| "kindNumber KInt8 = 3" | "kindNumber KInt16 = 4" | "kindNumber KInt32 = 5"
| "kindNumber KInt64 = 6" | "kindNumber KUint = 7" | "kindNumber KUint8 = 8"
| "kindNumber KUint16 = 9" | "kindNumber KUint32 = 10" | "kindNumber KUint64 = 11"
| "kindNumber KFloat32 = 12" | "kindNumber KFloat64 = 13" | "kindNumber KArray = 14"
| "kindNumber KStruct = 15" | "kindNumber KString = 16" | "kindNumber KBytes = 17"

definition quoted :: "string \<Rightarrow> string" where
  "quoted p = [CHR 0x27] @ p @ [CHR 0x27]"

fun render :: "verror \<Rightarrow> string" where
  "render InvalidSchema = ''invalid schema''"
| "render (RequiredFieldMissing p) = ''required field '' @ quoted p @ '' is missing''"
| "render (NilNotOptional p) = ''field '' @ quoted p @ '' is nil but not optional''"
| "render (MustBeBoolean p) = ''field '' @ quoted p @ '' must be a boolean''"
| "render (MustBeString p) = ''field '' @ quoted p @ '' must be a string''"
| "render (MustBeInteger p) = ''field '' @ quoted p @ '' must be an integer''"
| "render (MustBeNonNegativeInteger p) =
     ''field '' @ quoted p @ '' must be a non-negative integer''"
| "render (MustBeNumber p) = ''field '' @ quoted p @ '' must be a number''"
| "render (MustBeArray p) = ''field '' @ quoted p @ '' must be an array''"
| "render (MustBeMap p) = ''field '' @ quoted p @ '' must be a map[string]interface{}''"
| "render (MustBeBytes p) = ''field '' @ quoted p @ '' must be bytes or string''"
| "render (ArrayDefinitionNil p) = ''array type definition for '' @ quoted p @ '' is nil''"
| "render (StructDefinitionNil p) = ''struct type definition for '' @ quoted p @ '' is nil''"
| "render (OutOfRange p k) = ''field '' @ quoted p @ '' value out of range for '' @ k"
| "render (UnsupportedType k p) =
     ''unsupported type '' @ Itoa (kindNumber k) @ '' for field '' @ quoted p"

text \<open>
  \<^verbatim>\<open>validateIntValue\<close>: the type switch sets \<^verbatim>\<open>intVal\<close> and \<^verbatim>\<open>isInt\<close>, which start at their zero
  values; a dynamic type with no case leaves them there. The comparisons of the range check are
  those of \<^verbatim>\<open>int64\<close>, hence signed.
\<close>

definition intSwitch :: "val \<Rightarrow> 64 word \<times> bool" where
  "intSwitch v =
     (case v of
        VNumber n \<Rightarrow> (case ParseInt n of (i, err) \<Rightarrow> (i, err = None))
      | VInt i \<Rightarrow> (i, True)
      | VInt8 i \<Rightarrow> (scast i, True)
      | VInt16 i \<Rightarrow> (scast i, True)
      | VInt32 i \<Rightarrow> (scast i, True)
      | VInt64 i \<Rightarrow> (i, True)
      | VFloat64 f \<Rightarrow>
          if float_eq f (float_of_int64 (int64_of_float f)) then (int64_of_float f, True)
          else (0, False)
      | _ \<Rightarrow> (0, False))"

definition validateIntValue :: "val \<Rightarrow> Kind \<Rightarrow> string \<Rightarrow> verror option" where
  "validateIntValue v kind path =
     (case intSwitch v of (intVal, isInt) \<Rightarrow>
        if \<not> isInt then Some (MustBeInteger path)
        else (case kind of
            KInt8 \<Rightarrow>
              if sint intVal < - 128 \<or> sint intVal > 127
              then Some (OutOfRange path ''int8'') else None
          | KInt16 \<Rightarrow>
              if sint intVal < - 32768 \<or> sint intVal > 32767
              then Some (OutOfRange path ''int16'') else None
          | KInt32 \<Rightarrow>
              if sint intVal < - 2147483648 \<or> sint intVal > 2147483647
              then Some (OutOfRange path ''int32'') else None
          | _ \<Rightarrow> None))"

text \<open>
  \<^verbatim>\<open>validateUintValue\<close>: as above with \<^verbatim>\<open>uintVal\<close> and \<^verbatim>\<open>isUint\<close>; a \<^verbatim>\<open>json.Number\<close> goes through
  \<^verbatim>\<open>Int64\<close>, the signed types through a sign test. The comparisons of the range check are those
  of \<^verbatim>\<open>uint64\<close>.
\<close>

definition uintSwitch :: "val \<Rightarrow> 64 word \<times> bool" where
  "uintSwitch v =
     (case v of
        VNumber n \<Rightarrow>
          (case ParseInt n of (intVal, err) \<Rightarrow>
             if 0 \<le> sint intVal then (intVal, err = None) else (0, False))
      | VUint u \<Rightarrow> (u, True)
      | VUint8 u \<Rightarrow> (ucast u, True)
      | VUint16 u \<Rightarrow> (ucast u, True)
      | VUint32 u \<Rightarrow> (ucast u, True)
      | VUint64 u \<Rightarrow> (u, True)
      | VInt i \<Rightarrow> if 0 \<le> sint i then (i, True) else (0, False)
      | VInt8 i \<Rightarrow> if 0 \<le> sint i then (scast i, True) else (0, False)
      | VInt16 i \<Rightarrow> if 0 \<le> sint i then (scast i, True) else (0, False)
      | VInt32 i \<Rightarrow> if 0 \<le> sint i then (scast i, True) else (0, False)
      | VInt64 i \<Rightarrow> if 0 \<le> sint i then (i, True) else (0, False)
      | VFloat64 f \<Rightarrow>
          if float_le (Finite 0) f \<and> float_eq f (float_of_uint64 (uint64_of_float f))
          then (uint64_of_float f, True) else (0, False)
      | _ \<Rightarrow> (0, False))"

definition validateUintValue :: "val \<Rightarrow> Kind \<Rightarrow> string \<Rightarrow> verror option" where
  "validateUintValue v kind path =
     (case uintSwitch v of (uintVal, isUint) \<Rightarrow>
        if \<not> isUint then Some (MustBeNonNegativeInteger path)
        else (case kind of
            KUint8 \<Rightarrow> if uint uintVal > 255 then Some (OutOfRange path ''uint8'') else None
          | KUint16 \<Rightarrow> if uint uintVal > 65535 then Some (OutOfRange path ''uint16'') else None
          | KUint32 \<Rightarrow>
              if uint uintVal > 4294967295 then Some (OutOfRange path ''uint32'') else None
          | _ \<Rightarrow> None))"

text \<open>
  \<^verbatim>\<open>validateFloatValue\<close>. \<^verbatim>\<open>json.Number.Float64\<close> is \<^verbatim>\<open>strconv.ParseFloat\<close> of the standard
  library; it is the parameter \<open>pf\<close>, which returns the float and whether the error is nil.
  \<open>f32bound\<close> is the \<^verbatim>\<open>float64\<close> nearest to the constant \<^verbatim>\<open>3.4e38\<close>.
\<close>

type_synonym parse_float = "string \<Rightarrow> gofloat \<times> bool"

definition f32bound :: real where
  "f32bound = 339999999999999996123846586046231871488"

definition floatSwitch :: "parse_float \<Rightarrow> val \<Rightarrow> gofloat \<times> bool" where
  "floatSwitch pf v =
     (case v of
        VNumber n \<Rightarrow> pf n
      | VFloat32 f \<Rightarrow> (f, True)
      | VFloat64 f \<Rightarrow> (f, True)
      | VInt i \<Rightarrow> (float_of_int64 i, True)
      | VInt8 i \<Rightarrow> (float_of_int64 (scast i), True)
      | VInt16 i \<Rightarrow> (float_of_int64 (scast i), True)
      | VInt32 i \<Rightarrow> (float_of_int64 (scast i), True)
      | VInt64 i \<Rightarrow> (float_of_int64 i, True)
      | VUint u \<Rightarrow> (float_of_uint64 u, True)
      | VUint8 u \<Rightarrow> (float_of_uint64 (ucast u), True)
      | VUint16 u \<Rightarrow> (float_of_uint64 (ucast u), True)
      | VUint32 u \<Rightarrow> (float_of_uint64 (ucast u), True)
      | VUint64 u \<Rightarrow> (float_of_uint64 u, True)
      | _ \<Rightarrow> (Finite 0, False))"

definition validateFloatValue :: "parse_float \<Rightarrow> val \<Rightarrow> Kind \<Rightarrow> string \<Rightarrow> verror option" where
  "validateFloatValue pf v kind path =
     (case floatSwitch pf v of (floatVal, isFloat) \<Rightarrow>
        if \<not> isFloat then Some (MustBeNumber path)
        else if kind = KFloat32
                \<and> (float_less (Finite f32bound) floatVal \<or> float_less floatVal (Finite (- f32bound)))
        then Some (OutOfRange path ''float32'')
        else None)"


text \<open>
  \<^verbatim>\<open>validateValue\<close>, with its two loops as functions of their own: \<open>validateElems\<close> is the
  loop over the elements of an array, \<open>validateFields\<close> the loop over the fields of a nested
  struct. Both return at the first error. The list of fields is visited front to back: its
  order stands for the order in which \<^verbatim>\<open>range\<close> visits the map on this run.
\<close>

function (sequential) validateValue :: "parse_float \<Rightarrow> val \<Rightarrow> Type \<Rightarrow> string \<Rightarrow> verror option"
  and validateElems :: "parse_float \<Rightarrow> val list \<Rightarrow> nat \<Rightarrow> Type \<Rightarrow> string \<Rightarrow> verror option"
  and validateFields ::
    "parse_float \<Rightarrow> (string \<times> Type) list \<Rightarrow> (string \<times> val) list \<Rightarrow> string \<Rightarrow> verror option"
where
  "validateValue pf v (Type kind opt st ar) path =
     (if v = VNil then (if opt then None else Some (NilNotOptional path))
      else (case kind of
          KBool \<Rightarrow> (case v of VBool _ \<Rightarrow> None | _ \<Rightarrow> Some (MustBeBoolean path))
        | KString \<Rightarrow> (case v of VString _ \<Rightarrow> None | _ \<Rightarrow> Some (MustBeString path))
        | KInt \<Rightarrow> validateIntValue v kind path
        | KInt8 \<Rightarrow> validateIntValue v kind path
        | KInt16 \<Rightarrow> validateIntValue v kind path
        | KInt32 \<Rightarrow> validateIntValue v kind path
        | KInt64 \<Rightarrow> validateIntValue v kind path
        | KUint \<Rightarrow> validateUintValue v kind path
        | KUint8 \<Rightarrow> validateUintValue v kind path
        | KUint16 \<Rightarrow> validateUintValue v kind path
        | KUint32 \<Rightarrow> validateUintValue v kind path
        | KUint64 \<Rightarrow> validateUintValue v kind path
        | KFloat32 \<Rightarrow> validateFloatValue pf v kind path
        | KFloat64 \<Rightarrow> validateFloatValue pf v kind path
        | KArray \<Rightarrow>
            (case ar of
               None \<Rightarrow> Some (ArrayDefinitionNil path)
             | Some elemType \<Rightarrow>
                 (case v of
                    VArray arr \<Rightarrow> validateElems pf arr 0 elemType path
                  | _ \<Rightarrow> Some (MustBeArray path)))
        | KStruct \<Rightarrow>
            (case st of
               None \<Rightarrow> Some (StructDefinitionNil path)
             | Some fields \<Rightarrow>
                 (case v of
                    VMap mapValue \<Rightarrow> validateFields pf fields mapValue path
                  | _ \<Rightarrow> Some (MustBeMap path)))
        | KBytes \<Rightarrow>
            (case v of VBytes _ \<Rightarrow> None | VString _ \<Rightarrow> None | _ \<Rightarrow> Some (MustBeBytes path))
        | KInvalid \<Rightarrow> Some (UnsupportedType kind path)))"
| "validateElems pf [] i elemType path = None"
| "validateElems pf (elem # rest) i elemType path =
     (case validateValue pf elem elemType (path @ ''['' @ Itoa i @ '']'') of
        Some err \<Rightarrow> Some err
      | None \<Rightarrow> validateElems pf rest (Suc i) elemType path)"
| "validateFields pf [] mapValue path = None"
| "validateFields pf ((fieldName, fieldType) # rest) mapValue path =
     (case lookup mapValue fieldName of
        None \<Rightarrow>
          if \<not> Optional fieldType then Some (RequiredFieldMissing (path @ ''.'' @ fieldName))
          else validateFields pf rest mapValue path
      | Some nestedValue \<Rightarrow>
          (case validateValue pf nestedValue fieldType (path @ ''.'' @ fieldName) of
             Some err \<Rightarrow> Some err
           | None \<Rightarrow> validateFields pf rest mapValue path))"
  by pat_completeness auto
termination
  by (relation "inv_image (less_than <*lex*> less_than)
        (\<lambda>x. case x of
           Inl (pf, v, t, p) \<Rightarrow> (size t, 0)
         | Inr (Inl (pf, arr, i, t, p)) \<Rightarrow> (size t, Suc (length arr))
         | Inr (Inr (pf, fields, m, p)) \<Rightarrow> (size_list (size_prod (\<lambda>_. 0) size) fields, 0))")
     auto

text \<open>
  \<^verbatim>\<open>Validate\<close>. \<open>validateRoot\<close> is its loop over the fields of the schema, which appends to
  \<^verbatim>\<open>errors\<close> and goes on to the next field.
\<close>

fun validateRoot ::
  "parse_float \<Rightarrow> (string \<times> Type) list \<Rightarrow> (string \<times> val) list \<Rightarrow> verror list \<Rightarrow> verror list"
where
  "validateRoot pf [] data errors = errors"
| "validateRoot pf ((fieldName, fieldType) # rest) data errors =
     (case lookup data fieldName of
        None \<Rightarrow>
          if \<not> Optional fieldType
          then validateRoot pf rest data (errors @ [RequiredFieldMissing fieldName])
          else validateRoot pf rest data errors
      | Some v \<Rightarrow>
          (case validateValue pf v fieldType fieldName of
             Some err \<Rightarrow> validateRoot pf rest data (errors @ [err])
           | None \<Rightarrow> validateRoot pf rest data errors))"

definition Validate :: "parse_float \<Rightarrow> (string \<times> val) list \<Rightarrow> Type option \<Rightarrow> verror list" where
  "Validate pf data schema =
     (case schema of
        None \<Rightarrow> [InvalidSchema]
      | Some t \<Rightarrow>
          (case Struct t of
             None \<Rightarrow> [InvalidSchema]
           | Some fields \<Rightarrow> validateRoot pf fields data []))"

section \<open>The schema builder (parser/parser.go)\<close>

text \<open>
  The tables of package \<^verbatim>\<open>unicode\<close> are not part of the repository: \<^verbatim>\<open>unicode.IsLetter\<close>,
  \<^verbatim>\<open>unicode.IsDigit\<close> and \<^verbatim>\<open>unicode.ToUpper\<close> are a parameter of the model, and a character of
  a name stands for one rune. \<open>ascii\<close> is what the three functions are on the ASCII range.
\<close>

datatype unicode = Unicode (IsLetter: "char \<Rightarrow> bool") (IsDigit: "char \<Rightarrow> bool")
  (ToUpper: "char \<Rightarrow> char")

definition ascii :: unicode where
  "ascii =
     Unicode
       (\<lambda>c. ((65::nat) \<le> of_char c \<and> of_char c \<le> (90::nat))
            \<or> ((97::nat) \<le> of_char c \<and> of_char c \<le> (122::nat)))
       isDigit
       (\<lambda>c. case map_of (zip ''abcdefghijklmnopqrstuvwxyz'' ''ABCDEFGHIJKLMNOPQRSTUVWXYZ'') c of
              Some u \<Rightarrow> u
            | None \<Rightarrow> c)"

definition isValidFieldName :: "unicode \<Rightarrow> string \<Rightarrow> bool" where
  "isValidFieldName U name =
     (case name of
        [] \<Rightarrow> False
      | first # rest \<Rightarrow>
          if \<not> (IsLetter U first \<or> first = CHR ''_'') then False
          else list_all (\<lambda>r. IsLetter U r \<or> IsDigit U r \<or> r = CHR ''_'') rest)"

datatype perror =
    InvalidFieldName string
  | ExpectedType string val
  | MustDeclareArrayItem string
  | ArrayItemDeclaredOnce string

text \<open>\<^verbatim>\<open>m[key] = value\<close> on a map: the entry of the key is replaced, or a new entry is added.\<close>

fun mapSet :: "(string \<times> 'a) list \<Rightarrow> string \<Rightarrow> 'a \<Rightarrow> (string \<times> 'a) list" where
  "mapSet [] k v = [(k, v)]"
| "mapSet ((k', v') # m) k v = (if k' = k then (k, v) # m else (k', v') # mapSet m k v)"

definition kindOfName :: "string \<Rightarrow> Kind option" where
  "kindOfName v =
     (if v = ''bool'' then Some KBool
      else if v = ''int'' then Some KInt
      else if v = ''int8'' then Some KInt8
      else if v = ''int16'' then Some KInt16
      else if v = ''int32'' then Some KInt32
      else if v = ''int64'' then Some KInt64
      else if v = ''uint'' then Some KUint
      else if v = ''uint8'' then Some KUint8
      else if v = ''uint16'' then Some KUint16
      else if v = ''uint32'' then Some KUint32
      else if v = ''uint64'' then Some KUint64
      else if v = ''float32'' then Some KFloat32
      else if v = ''float64'' then Some KFloat64
      else if v = ''string'' then Some KString
      else if v = ''bytes'' then Some KBytes
      else None)"

definition HasSuffixQ :: "string \<Rightarrow> bool" where
  "HasSuffixQ key = (key \<noteq> [] \<and> last key = CHR ''?'')"

function (sequential) parseValueToType :: "unicode \<Rightarrow> string \<Rightarrow> val \<Rightarrow> bool \<Rightarrow> perror + Type"
  and parseFields ::
    "unicode \<Rightarrow> (string \<times> val) list \<Rightarrow> (string \<times> Type) list \<Rightarrow> perror + (string \<times> Type) list"
where
  "parseValueToType U fieldName (VString v) isOptional =
     (case kindOfName v of
        None \<Rightarrow> Inl (ExpectedType fieldName (VString v))
      | Some kind \<Rightarrow> Inr (Type kind isOptional None None))"
| "parseValueToType U fieldName (VArray v) isOptional =
     (if length v = 0 then Inl (MustDeclareArrayItem fieldName)
      else if length v > 1 then Inl (ArrayItemDeclaredOnce fieldName)
      else (case parseValueToType U fieldName (v ! 0) False of
              Inl err \<Rightarrow> Inl err
            | Inr itemType \<Rightarrow> Inr (Type KArray isOptional None (Some itemType))))"
| "parseValueToType U fieldName (VMap v) isOptional =
     (case parseFields U v [] of
        Inl err \<Rightarrow> Inl err
      | Inr nestedStruct \<Rightarrow> Inr (Type KStruct isOptional (Some nestedStruct) None))"
| "parseValueToType U fieldName v isOptional = Inl (ExpectedType fieldName v)"
| "parseFields U [] nestedStruct = Inr nestedStruct"
| "parseFields U ((k, val) # rest) nestedStruct =
     (let nestedIsOptional = HasSuffixQ k;
          nestedFieldName = (if HasSuffixQ k then butlast k else k)
      in if \<not> isValidFieldName U nestedFieldName then Inl (InvalidFieldName nestedFieldName)
         else (case parseValueToType U nestedFieldName val nestedIsOptional of
                 Inl err \<Rightarrow> Inl err
               | Inr nestedType \<Rightarrow> parseFields U rest (mapSet nestedStruct nestedFieldName nestedType)))"
  by pat_completeness auto
termination
  apply (relation "measure (\<lambda>x. case x of
           Inl (U, f, v, opt) \<Rightarrow> size v
         | Inr (U, kvs, acc) \<Rightarrow> size_list (size_prod (\<lambda>_. 0) size) kvs)")
     apply auto
  subgoal for v by (cases v) auto
  done

definition From :: "unicode \<Rightarrow> (string \<times> val) list \<Rightarrow> perror + Type" where
  "From U schema =
     (case parseFields U schema [] of
        Inl err \<Rightarrow> Inl err
      | Inr structType \<Rightarrow> Inr (Type KStruct False (Some structType) None))"

section \<open>The Go emitter (golang/golang.go)\<close>

text \<open>
  \<^verbatim>\<open>toCamelCase\<close>: the loop over the runes of the name, with its two variables \<^verbatim>\<open>result\<close> and
  \<^verbatim>\<open>nextUpper\<close>.
\<close>

fun camelLoop :: "unicode \<Rightarrow> string \<Rightarrow> string \<Rightarrow> bool \<Rightarrow> string" where
  "camelLoop U [] result nextUpper = result"
| "camelLoop U (char # s) result nextUpper =
     (if char = CHR ''_'' \<or> char = CHR ''-'' \<or> char = CHR '' '' then camelLoop U s result True
      else if nextUpper then camelLoop U s (result @ [ToUpper U char]) False
      else camelLoop U s (result @ [char]) False)"

definition toCamelCase :: "unicode \<Rightarrow> string \<Rightarrow> string" where
  "toCamelCase U s = camelLoop U s [] True"

datatype gerror =
    NilType
  | ExpectedRootStruct Kind
  | ExpectedStruct Kind
  | ArrayNilField
  | UnexpectedKind Kind

text \<open>
  The result of a function that returns an \<^verbatim>\<open>error\<close>: its values, an error, or the panic of a
  nil pointer dereference.
\<close>

datatype 'a outcome = Ok 'a | Error gerror | Panic

function typeToGoType ::
  "unicode \<Rightarrow> Type \<Rightarrow> string \<Rightarrow> string \<Rightarrow> (string \<times> string) outcome"
where
  "typeToGoType U t parentName fieldName =
     (case
        (case Kind t of
           KBool \<Rightarrow> Ok (''bool'', [])
         | KInt \<Rightarrow> Ok (''int'', [])
         | KInt8 \<Rightarrow> Ok (''int8'', [])
         | KInt16 \<Rightarrow> Ok (''int16'', [])
         | KInt32 \<Rightarrow> Ok (''int32'', [])
         | KInt64 \<Rightarrow> Ok (''int64'', [])
         | KUint \<Rightarrow> Ok (''uint'', [])
         | KUint8 \<Rightarrow> Ok (''uint8'', [])
         | KUint16 \<Rightarrow> Ok (''uint16'', [])
         | KUint32 \<Rightarrow> Ok (''uint32'', [])
         | KUint64 \<Rightarrow> Ok (''uint64'', [])
         | KFloat32 \<Rightarrow> Ok (''float32'', [])
         | KFloat64 \<Rightarrow> Ok (''float64'', [])
         | KString \<Rightarrow> Ok (''string'', [])
         | KBytes \<Rightarrow> Ok (''[]byte'', [])
         | KArray \<Rightarrow>
             (case Array t of
                None \<Rightarrow> Error ArrayNilField
              | Some elem \<Rightarrow>
                  (case typeToGoType U elem parentName fieldName of
                     Ok (elemType, elemNestedName) \<Rightarrow> Ok (''[]'' @ elemType, elemNestedName)
                   | Error err \<Rightarrow> Error err
                   | Panic \<Rightarrow> Panic))
         | KStruct \<Rightarrow>
             Ok (parentName @ toCamelCase U fieldName, parentName @ toCamelCase U fieldName)
         | KInvalid \<Rightarrow> Error (UnexpectedKind (Kind t)))
      of
        Ok (goType, nestedStructName) \<Rightarrow>
          Ok (if Optional t \<and> Kind t \<noteq> KArray \<and> Kind t \<noteq> KBytes then ''*'' @ goType else goType,
              nestedStructName)
      | Error err \<Rightarrow> Error err
      | Panic \<Rightarrow> Panic)"
  by pat_completeness auto
termination
  apply (relation "measure (\<lambda>(U, t, p, f). size t)")
   apply simp
  subgoal for U t parentName fieldName elem by (cases t) simp
  done

text \<open>
  The order in which a \<^verbatim>\<open>range\<close> over a map visits its keys is not fixed by Go. It is an input
  of the model: a rank of the keys for each \<^verbatim>\<open>range\<close> statement of each call, which is the loop
  over the fields or the loop over the nested structs of the struct of a given name. The map is
  visited in the order of the ranks; any order of visit is that of some rank.
\<close>

datatype site = FieldsOf string | NestedOf string

type_synonym order = "site \<Rightarrow> string \<Rightarrow> nat"

definition rangeMap :: "(string \<Rightarrow> nat) \<Rightarrow> (string \<times> 'a) list \<Rightarrow> (string \<times> 'a) list" where
  "rangeMap rank m = sort_key (\<lambda>kv. rank (fst kv)) m"

definition fieldLine :: "string \<Rightarrow> string \<Rightarrow> string \<Rightarrow> string" where
  "fieldLine goFieldName goFieldType jsonTag =
     [CHR 0x09] @ goFieldName @ '' '' @ goFieldType @ '' '' @ [CHR 0x60] @ ''json:''
       @ [CHR 0x22] @ jsonTag @ [CHR 0x22] @ [CHR 0x60] @ [CHR 0x0A]"

text \<open>
  The loop of \<^verbatim>\<open>generateStructs\<close> over the fields, on the fields in the order of the visit: it
  writes the line of each field and collects \<^verbatim>\<open>nestedStructs\<close>.
\<close>

fun fieldLoop ::
  "unicode \<Rightarrow> string \<Rightarrow> (string \<times> Type) list \<Rightarrow> string \<Rightarrow> (string \<times> Type) list
    \<Rightarrow> (string \<times> (string \<times> Type) list) outcome"
where
  "fieldLoop U structName [] buf nestedStructs = Ok (buf, nestedStructs)"
| "fieldLoop U structName ((fieldName, fieldType) # rest) buf nestedStructs =
     (case typeToGoType U fieldType structName fieldName of
        Error err \<Rightarrow> Error err
      | Panic \<Rightarrow> Panic
      | Ok (goFieldType, nestedName) \<Rightarrow>
          (case
             (if nestedName \<noteq> [] \<and> Kind fieldType = KStruct
              then Ok (mapSet nestedStructs nestedName (Type KStruct False (Struct fieldType) None))
              else if nestedName \<noteq> [] \<and> Kind fieldType = KArray
              then (case Array fieldType of
                      None \<Rightarrow> Panic
                    | Some elem \<Rightarrow>
                        if Kind elem = KStruct
                        then Ok (mapSet nestedStructs nestedName (Type KStruct False (Struct elem) None))
                        else Ok nestedStructs)
              else Ok nestedStructs)
           of
             Error err \<Rightarrow> Error err
           | Panic \<Rightarrow> Panic
           | Ok nestedStructs' \<Rightarrow>
               fieldLoop U structName rest
                 (buf @ fieldLine (toCamelCase U fieldName) goFieldType
                          (if Optional fieldType then fieldName @ '',omitempty'' else fieldName))
                 nestedStructs'))"

definition structHeader :: "string \<Rightarrow> string" where
  "structHeader structName =
     ''// '' @ structName @ '' represents a generated struct'' @ [CHR 0x0A]
       @ ''type '' @ structName @ '' struct {'' @ [CHR 0x0A]"

definition structFooter :: string where
  "structFooter = ''}'' @ [CHR 0x0A, CHR 0x0A]"

text \<open>The size of a map, the measure of the recursion of the walk.\<close>

definition mapWeight :: "(string \<times> Type) list \<Rightarrow> nat" where
  "mapWeight m = size_list (size_prod (\<lambda>_. 0) size) m"

lemma mapWeight_Nil: "mapWeight [] = 0"
  by (simp add: mapWeight_def)

lemma mapWeight_Cons: "mapWeight ((k, t) # m) = size t + 2 + mapWeight m"
  by (simp add: mapWeight_def)

lemma mapWeight_mapSet: "mapWeight (mapSet m k t) \<le> mapWeight m + size t + 2"
  by (induction m k t rule: mapSet.induct) (auto simp: mapWeight_Nil mapWeight_Cons)

lemma mapWeight_mset: "mset m = mset m' \<Longrightarrow> mapWeight m = mapWeight m'"
proof -
  assume eq: "mset m = mset m'"
  have w: "\<And>xs. mapWeight xs = sum_mset (image_mset (\<lambda>kv. size (snd kv) + 2) (mset xs))"
    subgoal for xs by (induction xs) (auto simp: mapWeight_Nil mapWeight_Cons)
    done
  show ?thesis by (simp add: w eq)
qed

lemma mapWeight_rangeMap: "mapWeight (rangeMap rank m) = mapWeight m"
  by (rule mapWeight_mset) (simp add: rangeMap_def)

lemma size_option_pos: "Suc 0 \<le> size_option f x"
  by (cases x) simp_all

lemma size_nested_struct: "size (Type KStruct False (Struct t) None) \<le> size t"
  by (cases t) (simp add: size_option_pos)

lemma size_nested_elem:
  "Array t = Some elem \<Longrightarrow> size (Type KStruct False (Struct elem) None) \<le> size t"
  by (cases t; cases elem) (simp add: size_option_pos)

lemma mapWeight_fieldLoop:
  "fieldLoop U structName fields buf acc = Ok (buf', nested) \<Longrightarrow>
     mapWeight nested \<le> mapWeight acc + mapWeight fields"
proof (induction U structName fields buf acc rule: fieldLoop.induct)
  case (1 U structName buf nestedStructs)
  then show ?case by (simp add: mapWeight_Nil)
next
  case (2 U structName fieldName fieldType rest buf nestedStructs)
  from "2.prems" obtain goFieldType nestedName nestedStructs' where
    ty: "typeToGoType U fieldType structName fieldName = Ok (goFieldType, nestedName)"
    and upd: "(if nestedName \<noteq> [] \<and> Kind fieldType = KStruct
              then Ok (mapSet nestedStructs nestedName (Type KStruct False (Struct fieldType) None))
              else if nestedName \<noteq> [] \<and> Kind fieldType = KArray
              then (case Array fieldType of
                      None \<Rightarrow> Panic
                    | Some elem \<Rightarrow>
                        if Kind elem = KStruct
                        then Ok (mapSet nestedStructs nestedName (Type KStruct False (Struct elem) None))
                        else Ok nestedStructs)
              else Ok nestedStructs) = Ok nestedStructs'"
    and rec: "fieldLoop U structName rest
                 (buf @ fieldLine (toCamelCase U fieldName) goFieldType
                          (if Optional fieldType then fieldName @ '',omitempty'' else fieldName))
                 nestedStructs' = Ok (buf', nested)"
    by (simp split: outcome.splits prod.splits)
  have "mapWeight nestedStructs' \<le> mapWeight nestedStructs + size fieldType + 2"
    using upd mapWeight_mapSet[of nestedStructs nestedName "Type KStruct False (Struct fieldType) None"]
      size_nested_struct[of fieldType]
    apply (simp split: if_splits option.splits)
    subgoal for elem
      using mapWeight_mapSet[of nestedStructs nestedName "Type KStruct False (Struct elem) None"]
        size_nested_elem[of fieldType elem] by simp
    done
  moreover have "mapWeight nested \<le> mapWeight nestedStructs' + mapWeight rest"
    using "2.IH"[OF ty refl upd rec] .
  ultimately show ?case by (simp add: mapWeight_Cons)
qed

text \<open>
  \<^verbatim>\<open>generateStructs\<close>. \<^verbatim>\<open>generatedStructs\<close>, a \<^verbatim>\<open>map[string]bool\<close> in which the code only sets
  keys to true and tests them, is the list of its keys in the order they were set; each key is
  set just before the declaration of that name is written, so the list is also the sequence of
  the names declared. \<open>nestedLoop\<close> is the loop over \<^verbatim>\<open>nestedStructs\<close>.
\<close>

function generateStructs ::
  "unicode \<Rightarrow> order \<Rightarrow> Type \<Rightarrow> string \<Rightarrow> string \<times> string list \<Rightarrow> (string \<times> string list) outcome"
  and nestedLoop ::
  "unicode \<Rightarrow> order \<Rightarrow> (string \<times> Type) list \<Rightarrow> string \<times> string list \<Rightarrow> (string \<times> string list) outcome"
where
  "generateStructs U ord t structName (buf, generatedStructs) =
     (if Kind t \<noteq> KStruct then Error (ExpectedStruct (Kind t))
      else if structName \<in> set generatedStructs then Ok (buf, generatedStructs)
      else (case Struct t of
              None \<Rightarrow> Panic
            | Some fields \<Rightarrow>
                (case fieldLoop U structName (rangeMap (ord (FieldsOf structName)) fields)
                        (buf @ structHeader structName) [] of
                   Error err \<Rightarrow> Error err
                 | Panic \<Rightarrow> Panic
                 | Ok (buf', nestedStructs) \<Rightarrow>
                     nestedLoop U ord (rangeMap (ord (NestedOf structName)) nestedStructs)
                       (buf' @ structFooter, generatedStructs @ [structName]))))"
| "nestedLoop U ord [] st = Ok st"
| "nestedLoop U ord ((nestedName, nestedStruct) # rest) st =
     (case generateStructs U ord nestedStruct nestedName st of
        Error err \<Rightarrow> Error err
      | Panic \<Rightarrow> Panic
      | Ok st' \<Rightarrow> nestedLoop U ord rest st')"
  by pat_completeness auto
termination
proof (relation "measure (\<lambda>x. case x of
           Inl (U, ord, t, n, st) \<Rightarrow> size t
         | Inr (U, ord, m, st) \<Rightarrow> mapWeight m)", goal_cases)
  case 1
  show ?case by simp
next
  case (2 U ord t structName buf generatedStructs fields res buf' nestedStructs)
  have "mapWeight nestedStructs \<le> mapWeight (rangeMap (ord (FieldsOf structName)) fields)"
    using mapWeight_fieldLoop[of U structName "rangeMap (ord (FieldsOf structName)) fields"
        "buf @ structHeader structName" "[]" buf' nestedStructs] 2
    by (simp add: mapWeight_Nil)
  moreover have "mapWeight fields < size t"
    using 2 by (cases t) (simp add: mapWeight_def)
  ultimately show ?case by (simp add: mapWeight_rangeMap)
next
  case 3
  then show ?case by (simp add: mapWeight_Cons)
next
  case 4
  then show ?case by (simp add: mapWeight_Cons)
qed

definition ToGolang :: "unicode \<Rightarrow> order \<Rightarrow> Type option \<Rightarrow> string \<Rightarrow> string \<Rightarrow> string outcome" where
  "ToGolang U ord t package rootType =
     (case t of
        None \<Rightarrow> Error NilType
      | Some t' \<Rightarrow>
          if Kind t' \<noteq> KStruct then Error (ExpectedRootStruct (Kind t'))
          else (case generateStructs U ord t' (if rootType = [] then ''Root'' else rootType)
                       (''package '' @ (if package = [] then ''generated'' else package)
                          @ [CHR 0x0A, CHR 0x0A], []) of
                  Error err \<Rightarrow> Error err
                | Panic \<Rightarrow> Panic
                | Ok (buf, generatedStructs) \<Rightarrow> Ok buf))"

section \<open>Properties of the validator\<close>

text \<open>What one field of the root adds to the result of \<^verbatim>\<open>Validate\<close>.\<close>

definition fieldErrors :: "parse_float \<Rightarrow> (string \<times> val) list \<Rightarrow> string \<times> Type \<Rightarrow> verror list" where
  "fieldErrors pf data f =
     (case lookup data (fst f) of
        None \<Rightarrow> if Optional (snd f) then [] else [RequiredFieldMissing (fst f)]
      | Some v \<Rightarrow>
          (case validateValue pf v (snd f) (fst f) of None \<Rightarrow> [] | Some err \<Rightarrow> [err]))"

lemma validateRoot_acc:
  "validateRoot pf fields data errors = errors @ validateRoot pf fields data []"
proof (induction fields arbitrary: errors)
  case Nil
  show ?case by simp
next
  case (Cons f fields)
  obtain fieldName fieldType where f: "f = (fieldName, fieldType)" by (cases f)
  have step: "validateRoot pf fields data (errors @ [e]) = errors @ validateRoot pf fields data [e]" for e
    using Cons.IH[of "errors @ [e]"] Cons.IH[of "[e]"] by simp
  show ?case
    unfolding f using step Cons.IH[of errors]
    by (simp split: option.splits)
qed

lemma fieldErrors_pair:
  "fieldErrors pf data (fieldName, fieldType) =
     (case lookup data fieldName of
        None \<Rightarrow> if Optional fieldType then [] else [RequiredFieldMissing fieldName]
      | Some v \<Rightarrow>
          (case validateValue pf v fieldType fieldName of None \<Rightarrow> [] | Some err \<Rightarrow> [err]))"
  by (simp add: fieldErrors_def split: option.splits)

lemma validateRoot_concat:
  "validateRoot pf fields data [] = concat (map (fieldErrors pf data) fields)"
proof (induction fields)
  case Nil
  show ?case by simp
next
  case (Cons f fields)
  obtain fieldName fieldType where f: "f = (fieldName, fieldType)" by (cases f)
  have step: "validateRoot pf fields data [e] = e # concat (map (fieldErrors pf data) fields)" for e
    using validateRoot_acc[of pf fields data "[e]"] Cons.IH by simp
  show ?case
    unfolding f using step Cons.IH
    by (simp add: fieldErrors_pair split: option.splits)
qed

lemma validateElems_append:
  "validateElems pf (xs @ ys) i elemType path =
     (case validateElems pf xs i elemType path of
        Some err \<Rightarrow> Some err
      | None \<Rightarrow> validateElems pf ys (i + length xs) elemType path)"
  by (induction xs arbitrary: i) (simp_all split: option.splits)

lemma validateFields_append:
  "validateFields pf (fs @ gs) mapValue path =
     (case validateFields pf fs mapValue path of
        Some err \<Rightarrow> Some err
      | None \<Rightarrow> validateFields pf gs mapValue path)"
proof (induction fs)
  case Nil
  show ?case by simp
next
  case (Cons f fs)
  obtain fieldName fieldType where f: "f = (fieldName, fieldType)" by (cases f)
  show ?case unfolding f using Cons.IH by (simp split: option.splits)
qed

lemma validateValue_nil:
  "validateValue pf VNil t path = (if Optional t then None else Some (NilNotOptional path))"
  by (cases t) simp

lemma Validate_concat:
  "Validate pf data (Some (Type kind opt (Some fields) ar)) = concat (map (fieldErrors pf data) fields)"
  by (simp add: Validate_def validateRoot_concat)

lemma fieldErrors_length: "length (fieldErrors pf data f) \<le> 1"
  by (simp add: fieldErrors_def split: option.splits)

lemma length_concat_singletons:
  "(\<And>x. length (g x) \<le> 1) \<Longrightarrow> length (concat (map g xs)) = length (filter (\<lambda>x. g x \<noteq> []) xs)"
proof (induction xs)
  case Nil
  show ?case by simp
next
  case (Cons x xs)
  have "length (g x) \<le> 1" by (rule Cons.prems)
  then have "length (g x) = (if g x = [] then 0 else 1)"
    by (cases "g x") auto
  with Cons show ?case by simp
qed

text \<open>
  C10. \<^verbatim>\<open>Validate\<close> never looks at the kind of the root: a nil schema and a schema whose
  \<^verbatim>\<open>Struct\<close> pointer is nil give the one error "invalid schema", and a schema whose \<^verbatim>\<open>Struct\<close>
  pointer is not nil is validated as the record of those fields whatever its kind, its
  optional flag and its \<^verbatim>\<open>Array\<close> pointer are.
\<close>

theorem Validate_ignores_root_kind:
  "Validate pf data None = [InvalidSchema]
   \<and> Validate pf data (Some (Type kind opt None ar)) = [InvalidSchema]
   \<and> Validate pf data (Some (Type kind opt (Some fields) ar)) = validateRoot pf fields data []
   \<and> Validate pf data (Some (Type kind opt (Some fields) ar))
       = Validate pf data (Some (Type KStruct False (Some fields) None))"
  by (simp add: Validate_def)

text \<open>
  C4. A value that is present and nil is accepted with no further check when the field is
  optional, and gives the error "is nil but not optional" at the path of the field when the
  field is required; this holds at any depth (\<open>validateValue\<close>), and for a field of the root
  (\<open>Validate\<close>) the field adds nothing, or that one error, to what the other fields give.
\<close>

theorem nil_value_optional_or_error:
  "validateValue pf VNil t path = (if Optional t then None else Some (NilNotOptional path))
   \<and> (lookup data name = Some VNil \<longrightarrow>
        Validate pf data (Some (Type kind opt (Some (pre @ (name, t) # post)) ar))
          = Validate pf data (Some (Type kind opt (Some pre) ar))
            @ (if Optional t then [] else [NilNotOptional name])
            @ Validate pf data (Some (Type kind opt (Some post) ar)))"
  by (simp add: validateValue_nil Validate_concat fieldErrors_pair)

theorem nil_value_optional_or_error_witness:
  "lookup [(''name'', VString ''a''), (''age'', VNil)] ''age'' = Some VNil
   \<and> Validate (\<lambda>_. (Finite 0, False)) [(''name'', VString ''a''), (''age'', VNil)]
        (Some (Type KStruct False
           (Some [(''name'', Type KString False None None), (''age'', Type KInt32 False None None)])
           None))
       = [NilNotOptional ''age'']
   \<and> Validate (\<lambda>_. (Finite 0, False)) [(''name'', VString ''a''), (''age'', VNil)]
        (Some (Type KStruct False
           (Some [(''name'', Type KString False None None), (''age'', Type KInt32 True None None)])
           None))
       = []"
proof -
  let ?data = "[(''name'', VString ''a''), (''age'', VNil)]"
  have h: "lookup ?data ''age'' = Some VNil"
    by (simp add: lookup_def)
  have pre: "Validate (\<lambda>_. (Finite 0, False)) ?data (Some (Type KStruct False
               (Some [(''name'', Type KString False None None)]) None)) = []"
    by (simp add: Validate_def lookup_def)
  have post: "Validate (\<lambda>_. (Finite 0, False)) ?data (Some (Type KStruct False (Some []) None)) = []"
    by (simp add: Validate_def)
  have req: "Validate (\<lambda>_. (Finite 0, False)) ?data (Some (Type KStruct False
               (Some ([(''name'', Type KString False None None)]
                      @ (''age'', Type KInt32 False None None) # [])) None))
             = [NilNotOptional ''age'']"
    using nil_value_optional_or_error[of "\<lambda>_. (Finite 0, False)" "Type KInt32 False None None" "''x''" ?data "''age''"
        KStruct False "[(''name'', Type KString False None None)]" "[]" None] h pre post
    by simp
  have opt: "Validate (\<lambda>_. (Finite 0, False)) ?data (Some (Type KStruct False
               (Some ([(''name'', Type KString False None None)]
                      @ (''age'', Type KInt32 True None None) # [])) None))
             = []"
    using nil_value_optional_or_error[of "\<lambda>_. (Finite 0, False)" "Type KInt32 True None None" "''x''" ?data "''age''"
        KStruct False "[(''name'', Type KString False None None)]" "[]" None] h pre post
    by simp
  show ?thesis using h req opt by simp
qed

text \<open>
  What one element of an array and one field of a nested record give, and the first error of
  a list of results.
\<close>

definition elemError :: "parse_float \<Rightarrow> Type \<Rightarrow> string \<Rightarrow> nat \<times> val \<Rightarrow> verror option" where
  "elemError pf elemType path e =
     validateValue pf (snd e) elemType (path @ ''['' @ Itoa (fst e) @ '']'')"

definition nestedFieldError ::
  "parse_float \<Rightarrow> (string \<times> val) list \<Rightarrow> string \<Rightarrow> string \<times> Type \<Rightarrow> verror option"
where
  "nestedFieldError pf mapValue path f =
     (case lookup mapValue (fst f) of
        None \<Rightarrow>
          if Optional (snd f) then None
          else Some (RequiredFieldMissing (path @ ''.'' @ fst f))
      | Some v \<Rightarrow> validateValue pf v (snd f) (path @ ''.'' @ fst f))"

fun firstError :: "verror option list \<Rightarrow> verror option" where
  "firstError [] = None"
| "firstError (Some err # rest) = Some err"
| "firstError (None # rest) = firstError rest"

lemma firstError_append:
  "firstError (xs @ ys) = (case firstError xs of Some err \<Rightarrow> Some err | None \<Rightarrow> firstError ys)"
  by (induction xs rule: firstError.induct) simp_all

lemma firstError_all_None: "list_all (\<lambda>x. x = None) xs \<Longrightarrow> firstError xs = None"
  by (induction xs rule: firstError.induct) simp_all

lemma validateElems_firstError:
  "validateElems pf arr i elemType path
     = firstError (map (elemError pf elemType path) (zip [i..<i + length arr] arr))"
proof (induction arr arbitrary: i)
  case Nil
  show ?case by simp
next
  case (Cons x xs)
  have "[i..<i + length (x # xs)] = i # [Suc i..<Suc i + length xs]"
    using upt_conv_Cons[of i "i + length (x # xs)"] by simp
  then show ?case
    using Cons.IH[of "Suc i"]
    by (cases "validateValue pf x elemType (path @ ''['' @ Itoa i @ '']'')")
       (simp_all add: elemError_def)
qed

lemma validateFields_firstError:
  "validateFields pf fields mapValue path
     = firstError (map (nestedFieldError pf mapValue path) fields)"
proof (induction fields)
  case Nil
  show ?case by simp
next
  case (Cons f fields)
  obtain fieldName fieldType where f: "f = (fieldName, fieldType)" by (cases f)
  show ?case
  proof (cases "lookup mapValue fieldName")
    case None
    with Cons.IH show ?thesis by (simp add: f nestedFieldError_def)
  next
    case (Some v)
    with Cons.IH show ?thesis
      by (cases "validateValue pf v fieldType (path @ ''.'' @ fieldName)")
         (simp_all add: f nestedFieldError_def)
  qed
qed

lemma firstError_nth:
  "j < length rs \<Longrightarrow> (\<forall>i<j. rs ! i = None) \<Longrightarrow> rs ! j = Some err \<Longrightarrow> firstError rs = Some err"
proof (induction rs arbitrary: j)
  case Nil
  then show ?case by simp
next
  case (Cons r rs)
  show ?case
  proof (cases j)
    case 0
    with Cons.prems show ?thesis by simp
  next
    case (Suc k)
    with Cons.prems have r: "r = None" by auto
    have "\<forall>i<k. rs ! i = None"
    proof (intro allI impI)
      fix i assume "i < k"
      with Suc have "Suc i < j" by simp
      with Cons.prems(2) have "(r # rs) ! Suc i = None" by blast
      then show "rs ! i = None" by simp
    qed
    with Cons.IH[of k] Cons.prems Suc have "firstError rs = Some err" by simp
    with r show ?thesis by simp
  qed
qed

lemma array_first_error:
  assumes "j < length arr"
    and "\<forall>i<j. validateValue pf (arr ! i) elemType (path @ ''['' @ Itoa i @ '']'') = None"
    and "validateValue pf (arr ! j) elemType (path @ ''['' @ Itoa j @ '']'') = Some err"
  shows "validateValue pf (VArray arr) (Type KArray opt st (Some elemType)) path = Some err"
proof -
  let ?rs = "map (elemError pf elemType path) (zip [0..<length arr] arr)"
  have nth: "?rs ! i = validateValue pf (arr ! i) elemType (path @ ''['' @ Itoa i @ '']'')"
    if "i < length arr" for i
    using that by (simp add: elemError_def)
  have "firstError ?rs = Some err"
  proof (rule firstError_nth[of j])
    show "j < length ?rs" using assms(1) by simp
    show "\<forall>i<j. ?rs ! i = None" using assms(1,2) nth by simp
    show "?rs ! j = Some err" using assms(1,3) nth by simp
  qed
  then show ?thesis
    using validateElems_firstError[of pf arr 0 elemType path] by simp
qed

lemma array_no_error:
  assumes "\<forall>i<length arr. validateValue pf (arr ! i) elemType (path @ ''['' @ Itoa i @ '']'') = None"
  shows "validateValue pf (VArray arr) (Type KArray opt st (Some elemType)) path = None"
proof -
  let ?e = "elemError pf elemType path"
  let ?z = "zip [0..<length arr] arr"
  have "list_all (\<lambda>x. x = None) (map ?e ?z)"
    unfolding list_all_iff
  proof
    fix x assume "x \<in> set (map ?e ?z)"
    then obtain k where k: "k < length arr" and x: "x = ?e (?z ! k)"
      by (auto simp: in_set_conv_nth)
    with assms show "x = None" by (simp add: elemError_def)
  qed
  from firstError_all_None[OF this] show ?thesis
    using validateElems_firstError[of pf arr 0 elemType path] by simp
qed

lemma record_first_error:
  assumes "list_all (\<lambda>f. nestedFieldError pf mapValue path f = None) fs"
    and "nestedFieldError pf mapValue path g = Some err"
  shows "validateValue pf (VMap mapValue) (Type KStruct opt (Some (fs @ g # gs)) ar) path = Some err"
proof -
  have "list_all (\<lambda>x. x = None) (map (nestedFieldError pf mapValue path) fs)"
    using assms(1) by (simp add: list_all_iff)
  from firstError_all_None[OF this] assms(2) show ?thesis
    by (simp add: validateFields_firstError firstError_append)
qed

lemma record_no_error:
  assumes "list_all (\<lambda>f. nestedFieldError pf mapValue path f = None) fs"
  shows "validateValue pf (VMap mapValue) (Type KStruct opt (Some fs) ar) path = None"
proof -
  have "list_all (\<lambda>x. x = None) (map (nestedFieldError pf mapValue path) fs)"
    using assms by (simp add: list_all_iff)
  from firstError_all_None[OF this] show ?thesis
    by (simp add: validateFields_firstError)
qed


text \<open>
  C1. \<^verbatim>\<open>Validate\<close> on a schema with a record appends what each field of the root gives, in
  the order of the visit, and goes on after an error: the result is the concatenation of the
  errors of the fields, each field gives at most one error, and so the result has one error for
  each field that has one. Below the root an error ends the call: the validation of an array is
  the first error among the results of \<^verbatim>\<open>validateValue\<close> on its elements, each at the path with its
  index, and the validation of a nested record is the first error among the results of its
  fields, each the error of a missing required field or the result of \<^verbatim>\<open>validateValue\<close> on the
  value at the path with its name. So the element or field that fails first gives the result,
  whatever follows it, and there is no error when none fails.
\<close>

theorem Validate_collects_siblings_nested_first_error:
  "Validate pf data (Some (Type kind opt (Some fields) ar))
     = concat (map (fieldErrors pf data) fields)
   \<and> length (fieldErrors pf data f) \<le> 1
   \<and> length (Validate pf data (Some (Type kind opt (Some fields) ar)))
       = length (filter (\<lambda>f. fieldErrors pf data f \<noteq> []) fields)
   \<and> validateValue pf (VArray arr) (Type KArray opt' st' (Some elemType)) path
       = validateElems pf arr 0 elemType path
   \<and> validateElems pf (xs @ ys) i elemType path
       = (case validateElems pf xs i elemType path of
            Some err \<Rightarrow> Some err
          | None \<Rightarrow> validateElems pf ys (i + length xs) elemType path)
   \<and> validateValue pf (VMap mapValue) (Type KStruct opt' (Some nested) ar') path
       = validateFields pf nested mapValue path
   \<and> validateFields pf (fs @ gs) mapValue path
       = (case validateFields pf fs mapValue path of
            Some err \<Rightarrow> Some err
          | None \<Rightarrow> validateFields pf gs mapValue path)
   \<and> validateValue pf (VArray arr) (Type KArray opt' st' (Some elemType)) path
       = firstError (map (elemError pf elemType path) (zip [0..<length arr] arr))
   \<and> validateValue pf (VMap mapValue) (Type KStruct opt' (Some nested) ar') path
       = firstError (map (nestedFieldError pf mapValue path) nested)
   \<and> (j < length arr \<longrightarrow>
        (\<forall>i<j. validateValue pf (arr ! i) elemType (path @ ''['' @ Itoa i @ '']'') = None) \<longrightarrow>
        validateValue pf (arr ! j) elemType (path @ ''['' @ Itoa j @ '']'') = Some e \<longrightarrow>
        validateValue pf (VArray arr) (Type KArray opt' st' (Some elemType)) path = Some e)
   \<and> ((\<forall>i<length arr.
          validateValue pf (arr ! i) elemType (path @ ''['' @ Itoa i @ '']'') = None) \<longrightarrow>
        validateValue pf (VArray arr) (Type KArray opt' st' (Some elemType)) path = None)
   \<and> (list_all (\<lambda>f. nestedFieldError pf mapValue path f = None) fs \<longrightarrow>
        nestedFieldError pf mapValue path g = Some e \<longrightarrow>
        validateValue pf (VMap mapValue) (Type KStruct opt' (Some (fs @ g # gs)) ar') path
          = Some e)
   \<and> (list_all (\<lambda>f. nestedFieldError pf mapValue path f = None) nested \<longrightarrow>
        validateValue pf (VMap mapValue) (Type KStruct opt' (Some nested) ar') path = None)"
proof -
  have "length (concat (map (fieldErrors pf data) fields))
          = length (filter (\<lambda>f. fieldErrors pf data f \<noteq> []) fields)"
    by (rule length_concat_singletons) (rule fieldErrors_length)
  moreover have "length (fieldErrors pf data f) \<le> 1"
    by (rule fieldErrors_length)
  moreover have "validateValue pf (VArray arr) (Type KArray opt' st' (Some elemType)) path
       = firstError (map (elemError pf elemType path) (zip [0..<length arr] arr))"
    using validateElems_firstError[of pf arr 0 elemType path] by simp
  moreover have "validateValue pf (VMap mapValue) (Type KStruct opt' (Some nested) ar') path
       = firstError (map (nestedFieldError pf mapValue path) nested)"
    by (simp add: validateFields_firstError)
  moreover note array_first_error[of j arr pf elemType path e opt' st']
    array_no_error[of arr pf elemType path opt' st']
    record_first_error[of pf mapValue path fs g e opt' gs ar']
    record_no_error[of pf mapValue path nested opt' ar']
  ultimately show ?thesis
    by (simp add: Validate_concat validateElems_append validateFields_append)
qed

theorem Validate_collects_siblings_nested_first_error_witness:
  "Validate (\<lambda>_. (Finite 0, False))
     [(''a'', VInt 1),
      (''c'', VArray [VInt 1, VString ''x'', VBool True]),
      (''r'', VMap [(''p'', VBool True), (''q'', VBool False)])]
     (Some (Type KStruct False
        (Some [(''a'', Type KString False None None),
               (''c'', Type KArray False None (Some (Type KInt False None None))),
               (''r'', Type KStruct False
                  (Some [(''p'', Type KInt False None None), (''q'', Type KInt False None None)])
                  None)])
        None))
   = [MustBeString ''a'', MustBeInteger ''c[1]'', MustBeInteger ''r.p'']"
proof -
  let ?pf = "\<lambda>_::string. (Finite 0, False)"
  let ?int = "Type KInt False None None"
  let ?arr = "[VInt 1, VString ''x'', VBool True]"
  let ?m = "[(''p'', VBool True), (''q'', VBool False)]"
  let ?rec = "[(''p'', ?int), (''q'', ?int)]"
  let ?data = "[(''a'', VInt 1), (''c'', VArray ?arr), (''r'', VMap ?m)]"
  let ?fields = "[(''a'', Type KString False None None),
                  (''c'', Type KArray False None (Some ?int)),
                  (''r'', Type KStruct False (Some ?rec) None)]"
  note t = Validate_collects_siblings_nested_first_error[where pf = ?pf and data = ?data
      and fields = ?fields and kind = KStruct and opt = False and ar = None
      and arr = ?arr and elemType = ?int and path = "''c''" and j = 1
      and e = "MustBeInteger ''c[1]''" and opt' = False and st' = None]
  have itoa: "Itoa 0 = ''0''" "Itoa (Suc 0) = ''1''"
    by (subst Itoa.simps, simp)+
  have c: "validateValue ?pf (VArray ?arr) (Type KArray False None (Some ?int)) ''c''
             = Some (MustBeInteger ''c[1]'')"
  proof -
    have "(1::nat) < length ?arr" by simp
    moreover have "\<forall>i<1. validateValue ?pf (?arr ! i) ?int (''c'' @ ''['' @ Itoa i @ '']'') = None"
      by (simp add: validateIntValue_def intSwitch_def)
    moreover have "validateValue ?pf (?arr ! 1) ?int (''c'' @ ''['' @ Itoa 1 @ '']'')
                     = Some (MustBeInteger ''c[1]'')"
      by (simp add: validateIntValue_def intSwitch_def itoa)
    ultimately show ?thesis
      by (rule t[THEN conjunct2, THEN conjunct2, THEN conjunct2, THEN conjunct2, THEN conjunct2, THEN conjunct2, THEN conjunct2, THEN conjunct2, THEN conjunct2, THEN conjunct1, THEN mp, THEN mp, THEN mp])
  qed
  note u = Validate_collects_siblings_nested_first_error[where pf = ?pf and mapValue = ?m
      and path = "''r''" and fs = "[]" and g = "(''p'', ?int)" and gs = "[(''q'', ?int)]"
      and e = "MustBeInteger ''r.p''" and opt' = False and ar' = None]
  have r: "validateValue ?pf (VMap ?m) (Type KStruct False (Some ?rec) None) ''r''
             = Some (MustBeInteger ''r.p'')"
  proof -
    have "nestedFieldError ?pf ?m ''r'' (''p'', ?int) = Some (MustBeInteger ''r.p'')"
      by (simp add: nestedFieldError_def lookup_def validateIntValue_def intSwitch_def)
    then show ?thesis
      using u[THEN conjunct2, THEN conjunct2, THEN conjunct2, THEN conjunct2, THEN conjunct2, THEN conjunct2, THEN conjunct2, THEN conjunct2, THEN conjunct2, THEN conjunct2, THEN conjunct2, THEN conjunct1, rule_format] by simp
  qed
  have "Validate ?pf ?data (Some (Type KStruct False (Some ?fields) None))
          = concat (map (fieldErrors ?pf ?data) ?fields)"
    by (rule t[THEN conjunct1])
  also have "\<dots> = [MustBeString ''a'', MustBeInteger ''c[1]'', MustBeInteger ''r.p'']"
    using c r by (simp add: fieldErrors_def lookup_def)
  finally show ?thesis .
qed

section \<open>Properties of the schema builder\<close>

lemma parseValueToType_Optional:
  "parseValueToType U fieldName v isOptional = Inr t \<Longrightarrow> Optional t = isOptional"
  by (cases v) (auto split: option.splits sum.splits if_splits)

lemma parseValueToType_singleton:
  "parseValueToType U fieldName (VArray [x]) isOptional =
     (case parseValueToType U fieldName x False of
        Inl err \<Rightarrow> Inl err
      | Inr itemType \<Rightarrow> Inr (Type KArray isOptional None (Some itemType)))"
  by simp

text \<open>
  C5. A field declared as a sequence: the empty sequence fails with "must declare type of
  array item", a sequence of two or more elements fails with "can only declare type of array
  items once", and a sequence of one element is the array of what that element parses to. The
  element is parsed with the optional flag off, and what a value parses to carries the flag it
  was parsed with: the flag of the key is on the array, and the element is never optional.
\<close>

theorem array_declares_exactly_one_element:
  "parseValueToType U fieldName (VArray []) isOptional = Inl (MustDeclareArrayItem fieldName)
   \<and> parseValueToType U fieldName (VArray (x # y # zs)) isOptional
       = Inl (ArrayItemDeclaredOnce fieldName)
   \<and> parseValueToType U fieldName (VArray [x]) isOptional
       = (case parseValueToType U fieldName x False of
            Inl err \<Rightarrow> Inl err
          | Inr itemType \<Rightarrow> Inr (Type KArray isOptional None (Some itemType)))
   \<and> (parseValueToType U fieldName (VArray [x]) isOptional = Inr t \<longrightarrow>
        Kind t = KArray \<and> Optional t = isOptional
        \<and> (\<exists>itemType. Array t = Some itemType \<and> \<not> Optional itemType
               \<and> parseValueToType U fieldName x False = Inr itemType))"
proof -
  have "Kind t = KArray \<and> Optional t = isOptional
        \<and> (\<exists>itemType. Array t = Some itemType \<and> \<not> Optional itemType
               \<and> parseValueToType U fieldName x False = Inr itemType)"
    if ok: "parseValueToType U fieldName (VArray [x]) isOptional = Inr t"
  proof -
    from ok obtain itemType where
      item: "parseValueToType U fieldName x False = Inr itemType"
      and t: "t = Type KArray isOptional None (Some itemType)"
      by (auto simp: parseValueToType_singleton split: sum.splits)
    from parseValueToType_Optional[OF item] have "\<not> Optional itemType" by simp
    with item t show ?thesis by simp
  qed
  then show ?thesis by simp
qed

theorem array_declares_exactly_one_element_witness:
  "parseValueToType ascii ''tags'' (VArray [VString ''string'']) True
     = Inr (Type KArray True None (Some (Type KString False None None)))
   \<and> From ascii [(''tags?'', VArray [VString ''string''])]
     = Inr (Type KStruct False
         (Some [(''tags'', Type KArray True None (Some (Type KString False None None)))]) None)
   \<and> From ascii [(''tags?'', VArray [])] = Inl (MustDeclareArrayItem ''tags'')
   \<and> From ascii [(''tags?'', VArray [VString ''string'', VString ''int''])]
     = Inl (ArrayItemDeclaredOnce ''tags'')"
proof -
  have ok: "parseValueToType ascii ''tags'' (VArray [VString ''string'']) True
     = Inr (Type KArray True None (Some (Type KString False None None)))"
    by (simp add: kindOfName_def)
  from array_declares_exactly_one_element[of ascii "''tags''" True "VString ''string''"
      "VString ''int''" "[]" "Type KArray True None (Some (Type KString False None None))"] ok
  have one: "parseValueToType ascii ''tags'' (VArray []) True = Inl (MustDeclareArrayItem ''tags'')"
    and two: "parseValueToType ascii ''tags'' (VArray [VString ''string'', VString ''int'']) True
       = Inl (ArrayItemDeclaredOnce ''tags'')"
    by simp_all
  have name: "HasSuffixQ ''tags?''" "butlast ''tags?'' = ''tags''" "isValidFieldName ascii ''tags''"
    by (simp_all add: HasSuffixQ_def isValidFieldName_def ascii_def)
  show ?thesis
    using ok one two name by (simp add: From_def)
qed

section \<open>Depth of nesting\<close>

text \<open>
  Inputs of any depth: a list of layers, each an array (\<open>True\<close>) or a record with the one
  field \<^verbatim>\<open>_\<close> (\<open>False\<close>), around a leaf. \<open>nestRaw\<close> is the tree the builder reads,
  \<open>nestType\<close> the schema of that shape around an \<^verbatim>\<open>int\<close>, and \<open>nestData\<close> an instance of it.
  \<open>leafField\<close> is the field name the builder has at the leaf and \<open>nestPath\<close> the path the
  validator has there.
\<close>

fun nestRaw :: "val \<Rightarrow> bool list \<Rightarrow> val" where
  "nestRaw leaf [] = leaf"
| "nestRaw leaf (True # l) = VArray [nestRaw leaf l]"
| "nestRaw leaf (False # l) = VMap [(''_'', nestRaw leaf l)]"

fun nestType :: "bool list \<Rightarrow> bool \<Rightarrow> Type" where
  "nestType [] opt = Type KInt opt None None"
| "nestType (True # l) opt = Type KArray opt None (Some (nestType l False))"
| "nestType (False # l) opt = Type KStruct opt (Some [(''_'', nestType l False)]) None"

fun nestData :: "val \<Rightarrow> bool list \<Rightarrow> val" where
  "nestData leaf [] = leaf"
| "nestData leaf (True # l) = VArray [nestData leaf l]"
| "nestData leaf (False # l) = VMap [(''_'', nestData leaf l)]"

fun leafField :: "string \<Rightarrow> bool list \<Rightarrow> string" where
  "leafField fieldName [] = fieldName"
| "leafField fieldName (True # l) = leafField fieldName l"
| "leafField fieldName (False # l) = leafField ''_'' l"

fun nestPath :: "string \<Rightarrow> bool list \<Rightarrow> string" where
  "nestPath path [] = path"
| "nestPath path (True # l) = nestPath (path @ ''[0]'') l"
| "nestPath path (False # l) = nestPath (path @ ''._'') l"

lemma field_underscore: "\<not> HasSuffixQ ''_''" "isValidFieldName U ''_''"
  by (simp_all add: HasSuffixQ_def isValidFieldName_def)

lemma Itoa_0: "Itoa 0 = ''0''"
  by (simp add: Itoa.simps)

lemma parse_nest:
  "parseValueToType U fieldName (nestRaw (VString ''int'') l) opt = Inr (nestType l opt)"
proof (induction l arbitrary: fieldName opt)
  case Nil
  show ?case by (simp add: kindOfName_def)
next
  case (Cons b l)
  show ?case by (cases b) (simp_all add: Cons.IH field_underscore)
qed

lemma parse_nest_bad:
  "parseValueToType U fieldName (nestRaw (VBool b) l) opt
     = Inl (ExpectedType (leafField fieldName l) (VBool b))"
proof (induction l arbitrary: fieldName opt)
  case Nil
  show ?case by simp
next
  case (Cons a l)
  show ?case by (cases a) (simp_all add: Cons.IH field_underscore)
qed

lemma nestData_not_nil: "leaf \<noteq> VNil \<Longrightarrow> nestData leaf l \<noteq> VNil"
  by (induction leaf l rule: nestData.induct) simp_all

lemma validate_nest: "validateValue pf (nestData (VInt i) l) (nestType l opt) path = None"
proof (induction l arbitrary: opt path)
  case Nil
  show ?case by (simp add: validateIntValue_def intSwitch_def)
next
  case (Cons b l)
  show ?case by (cases b) (simp_all add: Cons.IH lookup_def)
qed

lemma validate_nest_bad:
  "validateValue pf (nestData (VString s) l) (nestType l opt) path
     = Some (MustBeInteger (nestPath path l))"
proof (induction l arbitrary: opt path)
  case Nil
  show ?case by (simp add: validateIntValue_def intSwitch_def)
next
  case (Cons b l)
  show ?case by (cases b) (simp_all add: Cons.IH lookup_def Itoa_0)
qed

text \<open>
  C9, as the code has it. Neither the builder nor the validator counts the depth of the
  recursion, and there is no error for it: each makes one call for each level of the nesting.
  In the model, which has no call stack, the builder reaches the leaf of a tree of every depth:
  it returns the schema of the same depth, or the error of the leaf with the field name it
  has there. The validator reaches the leaf of an instance of every depth: it accepts a leaf
  that is valid and reports one that is not at its full path.
\<close>

theorem nesting_of_any_depth_is_processed:
  "parseValueToType U fieldName (nestRaw (VString ''int'') l) opt = Inr (nestType l opt)
   \<and> parseValueToType U fieldName (nestRaw (VBool b) l) opt
       = Inl (ExpectedType (leafField fieldName l) (VBool b))
   \<and> From U [(''_'', nestRaw (VString ''int'') l)] = Inr (nestType (False # l) False)
   \<and> From U [(''_'', nestRaw (VBool b) l)] = Inl (ExpectedType (leafField ''_'' l) (VBool b))
   \<and> validateValue pf (nestData (VInt i) l) (nestType l opt) path = None
   \<and> validateValue pf (nestData (VString s) l) (nestType l opt) path
       = Some (MustBeInteger (nestPath path l))
   \<and> Validate pf [(''_'', nestData (VInt i) l)] (Some (nestType (False # l) False)) = []
   \<and> Validate pf [(''_'', nestData (VString s) l)] (Some (nestType (False # l) False))
       = [MustBeInteger (nestPath ''_'' l)]"
  using validate_nest[of pf i l False "''_''"]
    validate_nest_bad[of pf s l False "''_''"]
  by (simp add: parse_nest parse_nest_bad validate_nest validate_nest_bad From_def
      field_underscore Validate_def lookup_def)

theorem no_depth_cap_counterexample:
  "\<not> (\<exists>cap. \<forall>l. cap < length l \<longrightarrow>
         (\<exists>err. From ascii [(''_'', nestRaw (VString ''int'') l)] = Inl err))
   \<and> \<not> (\<exists>cap. \<forall>l. cap < length l \<longrightarrow>
          Validate (\<lambda>_. (Finite 0, False)) [(''_'', nestData (VInt 0) l)]
            (Some (nestType (False # l) False)) \<noteq> [])"
proof -
  have b: "From ascii [(''_'', nestRaw (VString ''int'') l)] = Inr (nestType (False # l) False)"
    for l
    by (simp add: parse_nest From_def field_underscore)
  have v: "Validate (\<lambda>_. (Finite 0, False)) [(''_'', nestData (VInt 0) l)]
             (Some (nestType (False # l) False)) = []" for l
    using validate_nest[of "\<lambda>_. (Finite 0, False)" 0 l False "''_''"]
    by (simp add: Validate_def lookup_def)
  have "\<exists>l::bool list. cap < length l" for cap :: nat
    by (rule exI[of _ "replicate (Suc cap) True"]) simp
  then show ?thesis using b v by (metis sum.distinct(1))
qed

section \<open>Properties of the number checks\<close>

text \<open>
  The number an integer literal denotes: an optional sign and one or more decimal digits.
  \<open>ParseInt\<close> succeeds exactly on the literals whose number is an \<^verbatim>\<open>int64\<close>.
\<close>

definition decFrom :: "nat \<Rightarrow> string \<Rightarrow> nat" where
  "decFrom n s = foldl (\<lambda>a c. a * 10 + digitVal c) n s"

definition allDigits :: "string \<Rightarrow> bool" where
  "allDigits s = (s \<noteq> [] \<and> list_all isDigit s)"

definition intLiteral :: "string \<Rightarrow> int option" where
  "intLiteral s =
     (case s of
        [] \<Rightarrow> None
      | c # cs \<Rightarrow>
          if c = CHR ''-'' then (if allDigits cs then Some (- int (decFrom 0 cs)) else None)
          else if c = CHR ''+'' then (if allDigits cs then Some (int (decFrom 0 cs)) else None)
          else if allDigits s then Some (int (decFrom 0 s)) else None)"

lemma decFrom_Nil: "decFrom n [] = n"
  by (simp add: decFrom_def)

lemma decFrom_Cons: "decFrom n (c # cs) = decFrom (n * 10 + digitVal c) cs"
  by (simp add: decFrom_def)

lemma decFrom_ge: "n \<le> decFrom n s"
proof (induction s arbitrary: n)
  case Nil
  show ?case by (simp add: decFrom_Nil)
next
  case (Cons c cs)
  have "n \<le> n * 10 + digitVal c" by simp
  also have "\<dots> \<le> decFrom (n * 10 + digitVal c) cs" by (rule Cons.IH)
  finally show ?case by (simp add: decFrom_Cons)
qed

lemma parseDigits_digits:
  "list_all isDigit s \<Longrightarrow> n \<le> maxUint64 \<Longrightarrow>
     parseDigits s n =
       (if decFrom n s \<le> maxUint64 then (decFrom n s, None) else (maxUint64, Some ErrRange))"
proof (induction s arbitrary: n)
  case Nil
  then show ?case by (simp add: decFrom_Nil) 
next
  case (Cons c cs)
  from Cons.prems have c: "isDigit c" and cs: "list_all isDigit cs" by simp_all
  note n = Cons.prems(2)
  let ?n1 = "n * 10 + digitVal c"
  have ge: "?n1 \<le> decFrom n (c # cs)"
    using decFrom_ge[of ?n1 cs] by (simp add: decFrom_Cons)
  show ?case
  proof (cases "n \<ge> maxUint64 div 10 + 1")
    case True
    then have "maxUint64 < ?n1" by (simp add: maxUint64_def)
    with ge have "\<not> decFrom n (c # cs) \<le> maxUint64" by simp
    with True c show ?thesis by simp
  next
    case False
    show ?thesis
    proof (cases "?n1 > maxUint64")
      case True
      with ge have "\<not> decFrom n (c # cs) \<le> maxUint64" by simp
      with True False c show ?thesis by simp
    next
      case n1: False
      then have "?n1 \<le> maxUint64" by simp
      from Cons.IH[OF cs this] n1 False c show ?thesis
        by (simp add: decFrom_Cons)
    qed
  qed
qed

lemma parseDigits_not_digits:
  "\<not> list_all isDigit s \<Longrightarrow> snd (parseDigits s n) \<noteq> None"
  by (induction s arbitrary: n) auto

lemma parseDigits_fst: "snd (parseDigits s n) = Some ErrRange \<Longrightarrow> fst (parseDigits s n) = maxUint64"
  by (induction s arbitrary: n) (auto split: if_splits)

lemma ParseUint_digits:
  "allDigits s \<Longrightarrow>
     ParseUint s =
       (if decFrom 0 s \<le> maxUint64 then (decFrom 0 s, None) else (maxUint64, Some ErrRange))"
  by (simp add: ParseUint_def allDigits_def parseDigits_digits maxUint64_def)

lemma ParseUint_not_digits: "\<not> allDigits s \<Longrightarrow> snd (ParseUint s) \<noteq> None"
  using parseDigits_not_digits[of s 0]
  by (cases "s = []") (simp_all add: ParseUint_def allDigits_def)

lemma ParseUint_fst: "snd (ParseUint s) = Some ErrRange \<Longrightarrow> fst (ParseUint s) = maxUint64"
  by (auto simp: ParseUint_def parseDigits_fst split: if_splits)

text \<open>The sign and the rest of a literal, as \<open>ParseInt\<close> splits them.\<close>

lemma intLiteral_split:
  "s \<noteq> [] \<Longrightarrow>
   intLiteral s =
     (let neg = (hd s = CHR ''-'');
          s' = (if hd s = CHR ''+'' \<or> hd s = CHR ''-'' then tl s else s)
      in if allDigits s' then Some (if neg then - int (decFrom 0 s') else int (decFrom 0 s'))
         else None)"
  by (cases s) (auto simp: intLiteral_def Let_def)

lemma ParseInt_cases:
  assumes "s \<noteq> []"
    and "ParseUint (if hd s = CHR ''+'' \<or> hd s = CHR ''-'' then tl s else s) = (un, err)"
  shows "ParseInt s =
     (if err \<noteq> None \<and> err \<noteq> Some ErrRange then (0, err)
      else if hd s \<noteq> CHR ''-'' \<and> un \<ge> 2 ^ 63 then (word_of_nat (2 ^ 63 - 1), Some ErrRange)
      else if hd s = CHR ''-'' \<and> un > 2 ^ 63 then (- word_of_nat (2 ^ 63), Some ErrRange)
      else (if hd s = CHR ''-'' then - word_of_nat un else word_of_nat un, None))"
  using assms by (simp add: ParseInt_def Let_def)

lemma intLiteral_Some:
  assumes "intLiteral s = Some z"
  shows "s \<noteq> []"
    and "allDigits (if hd s = CHR ''+'' \<or> hd s = CHR ''-'' then tl s else s)"
    and "z = (if hd s = CHR ''-''
              then - int (decFrom 0 (if hd s = CHR ''+'' \<or> hd s = CHR ''-'' then tl s else s))
              else int (decFrom 0 (if hd s = CHR ''+'' \<or> hd s = CHR ''-'' then tl s else s)))"
proof -
  from assms show ne: "s \<noteq> []" by (auto simp: intLiteral_def)
  from assms ne show "allDigits (if hd s = CHR ''+'' \<or> hd s = CHR ''-'' then tl s else s)"
    by (simp add: intLiteral_split Let_def split: if_splits)
  from assms ne show "z = (if hd s = CHR ''-''
              then - int (decFrom 0 (if hd s = CHR ''+'' \<or> hd s = CHR ''-'' then tl s else s))
              else int (decFrom 0 (if hd s = CHR ''+'' \<or> hd s = CHR ''-'' then tl s else s)))"
    by (simp add: intLiteral_split Let_def split: if_splits)
qed

lemma ParseInt_in_range:
  assumes "intLiteral s = Some z" "- (2 ^ 63) \<le> z" "z < 2 ^ 63"
  shows "ParseInt s = (word_of_int z, None)"
proof -
  let ?s' = "if hd s = CHR ''+'' \<or> hd s = CHR ''-'' then tl s else s"
  note lit = intLiteral_Some[OF assms(1)]
  define un where "un = decFrom 0 ?s'"
  have z: "z = (if hd s = CHR ''-'' then - int un else int un)"
    using lit(3) by (simp add: un_def)
  with assms(2,3) have un: "un \<le> maxUint64" "hd s = CHR ''-'' \<or> un < 2 ^ 63" "un \<le> 2 ^ 63"
    by (auto simp: maxUint64_def split: if_splits)
  have pu: "ParseUint ?s' = (un, None)"
    using ParseUint_digits[OF lit(2)] un(1) by (simp add: un_def)
  show ?thesis
    unfolding ParseInt_cases[OF lit(1) pu] using un(2,3) by (auto simp: z)
qed

lemma ParseInt_too_big:
  assumes "intLiteral s = Some z" "2 ^ 63 \<le> z"
  shows "ParseInt s = (word_of_int (2 ^ 63 - 1), Some ErrRange)"
proof -
  let ?s' = "if hd s = CHR ''+'' \<or> hd s = CHR ''-'' then tl s else s"
  note lit = intLiteral_Some[OF assms(1)]
  from lit(3) assms(2) have pos: "hd s \<noteq> CHR ''-''" and big: "2 ^ 63 \<le> decFrom 0 ?s'"
    by (auto split: if_splits)
  obtain un err where pu: "ParseUint ?s' = (un, err)" by (cases "ParseUint ?s'")
  with ParseUint_digits[OF lit(2)] big have "2 ^ 63 \<le> un" "err = None \<or> err = Some ErrRange"
    by (auto simp: maxUint64_def split: if_splits)
  then show ?thesis
    unfolding ParseInt_cases[OF lit(1) pu] using pos by auto
qed

lemma ParseInt_too_small:
  assumes "intLiteral s = Some z" "z < - (2 ^ 63)"
  shows "ParseInt s = (word_of_int (- (2 ^ 63)), Some ErrRange)"
proof -
  let ?s' = "if hd s = CHR ''+'' \<or> hd s = CHR ''-'' then tl s else s"
  note lit = intLiteral_Some[OF assms(1)]
  from lit(3) assms(2) have neg: "hd s = CHR ''-''" and big: "2 ^ 63 < decFrom 0 ?s'"
    by (auto split: if_splits)
  obtain un err where pu: "ParseUint ?s' = (un, err)" by (cases "ParseUint ?s'")
  with ParseUint_digits[OF lit(2)] big have "2 ^ 63 < un" "err = None \<or> err = Some ErrRange"
    by (auto simp: maxUint64_def split: if_splits)
  then show ?thesis
    unfolding ParseInt_cases[OF lit(1) pu] using neg by auto
qed

lemma ParseInt_not_literal:
  assumes "intLiteral s = None"
  shows "snd (ParseInt s) \<noteq> None"
proof (cases "s = []")
  case True
  then show ?thesis by (simp add: ParseInt_def)
next
  case ne: False
  let ?s' = "if hd s = CHR ''+'' \<or> hd s = CHR ''-'' then tl s else s"
  from assms ne have dig: "\<not> allDigits ?s'"
    by (auto simp: intLiteral_split Let_def split: if_splits)
  obtain un err where pu: "ParseUint ?s' = (un, err)" by (cases "ParseUint ?s'")
  with ParseUint_not_digits[OF dig] have err: "err \<noteq> None" by simp
  show ?thesis
  proof (cases "err = Some ErrRange")
    case True
    then have "un = maxUint64" using ParseUint_fst[of ?s'] pu by simp
    then show ?thesis unfolding ParseInt_cases[OF ne pu] using True by (simp add: maxUint64_def)
  next
    case False
    with err show ?thesis unfolding ParseInt_cases[OF ne pu] by simp
  qed
qed


lemma sint_scast_64:
  "sint (scast (a :: 8 word) :: 64 word) = sint a"
  "sint (scast (b :: 16 word) :: 64 word) = sint b"
  "sint (scast (c :: 32 word) :: 64 word) = sint c"
  by (simp_all add: sint_up_scast is_up)

lemma uint_ucast_64:
  "uint (ucast (a :: 8 word) :: 64 word) = uint a"
  "uint (ucast (b :: 16 word) :: 64 word) = uint b"
  "uint (ucast (c :: 32 word) :: 64 word) = uint c"
  by (simp_all add: uint_up_ucast is_up)

lemma uint_eq_sint:
  fixes w :: "'a::len word"
  assumes "0 \<le> sint w"
  shows "uint w = sint w"
proof -
  have "sint w < 2 ^ (LENGTH('a) - 1)" by (rule sint_lt)
  also have "(2::int) ^ (LENGTH('a) - 1) \<le> 2 ^ LENGTH('a)"
    by (rule power_increasing) simp_all
  finally have "sint w < 2 ^ LENGTH('a)" .
  with assms have "take_bit LENGTH('a) (sint w) = sint w"
    by (simp add: take_bit_int_eq_self)
  then show ?thesis by (simp add: uint_sint)
qed

lemma sint_word_of_int_64:
  "- (2 ^ 63) \<le> z \<Longrightarrow> z < 2 ^ 63 \<Longrightarrow> sint (word_of_int z :: 64 word) = z"
  by (simp add: sint_sbintrunc' signed_take_bit_int_eq_self)

lemma uint_word_of_int_64:
  "0 \<le> z \<Longrightarrow> z < 2 ^ 64 \<Longrightarrow> uint (word_of_int z :: 64 word) = z"
  by (simp add: uint_word_of_int)

lemma trunc_whole: "x = of_int \<lfloor>x\<rfloor> \<Longrightarrow> trunc x = \<lfloor>x\<rfloor>"
  by (metis ceiling_of_int trunc_def)

lemma whole_trunc: "x = of_int (trunc x) \<Longrightarrow> x = of_int \<lfloor>x\<rfloor>"
  by (metis floor_of_int)

text \<open>
  What the claims call a whole number in a representation the check of a signed kind takes:
  a signed integer of Go, a \<^verbatim>\<open>float64\<close> with no fractional part, or a \<^verbatim>\<open>json.Number\<close> that is
  an integer literal of an \<^verbatim>\<open>int64\<close>. Every other value has none. \<open>signedBits\<close> and
  \<open>unsignedBits\<close> give the width of the kinds that have a range check, \<open>kindName\<close> the name
  of a kind.
\<close>

fun wholeValue :: "val \<Rightarrow> int option" where
  "wholeValue (VInt i) = Some (sint i)"
| "wholeValue (VInt8 i) = Some (sint i)"
| "wholeValue (VInt16 i) = Some (sint i)"
| "wholeValue (VInt32 i) = Some (sint i)"
| "wholeValue (VInt64 i) = Some (sint i)"
| "wholeValue (VFloat64 (Finite x)) = (if x = of_int \<lfloor>x\<rfloor> then Some \<lfloor>x\<rfloor> else None)"
| "wholeValue (VNumber n) =
     (case intLiteral n of
        Some z \<Rightarrow> if - (2 ^ 63) \<le> z \<and> z < 2 ^ 63 then Some z else None
      | None \<Rightarrow> None)"
| "wholeValue _ = None"

fun floatBeyondInt64 :: "val \<Rightarrow> bool" where
  "floatBeyondInt64 (VFloat64 (Finite x)) = (x < - (2 ^ 63) \<or> 2 ^ 63 \<le> x)"
| "floatBeyondInt64 _ = False"

fun signedBits :: "Kind \<Rightarrow> nat option" where
  "signedBits KInt8 = Some 8"
| "signedBits KInt16 = Some 16"
| "signedBits KInt32 = Some 32"
| "signedBits _ = None"

fun unsignedBits :: "Kind \<Rightarrow> nat option" where
  "unsignedBits KUint8 = Some 8"
| "unsignedBits KUint16 = Some 16"
| "unsignedBits KUint32 = Some 32"
| "unsignedBits _ = None"

fun kindName :: "Kind \<Rightarrow> string" where
  "kindName KInvalid = ''invalid''" | "kindName KBool = ''bool''" | "kindName KInt = ''int''"
| "kindName KInt8 = ''int8''" | "kindName KInt16 = ''int16''" | "kindName KInt32 = ''int32''"
| "kindName KInt64 = ''int64''" | "kindName KUint = ''uint''" | "kindName KUint8 = ''uint8''"
| "kindName KUint16 = ''uint16''" | "kindName KUint32 = ''uint32''"
| "kindName KUint64 = ''uint64''" | "kindName KFloat32 = ''float32''"
| "kindName KFloat64 = ''float64''" | "kindName KArray = ''array''"
| "kindName KStruct = ''struct''" | "kindName KString = ''string''"
| "kindName KBytes = ''bytes''"

definition signedKind :: "Kind \<Rightarrow> bool" where
  "signedKind k = (k = KInt \<or> k = KInt8 \<or> k = KInt16 \<or> k = KInt32 \<or> k = KInt64)"

definition unsignedKind :: "Kind \<Rightarrow> bool" where
  "unsignedKind k = (k = KUint \<or> k = KUint8 \<or> k = KUint16 \<or> k = KUint32 \<or> k = KUint64)"

lemma intSwitch_whole:
  "\<not> floatBeyondInt64 v \<Longrightarrow>
     intSwitch v = (case wholeValue v of None \<Rightarrow> (fst (intSwitch v), False)
                    | Some z \<Rightarrow> (word_of_int z, True))"
proof (cases v)
  case (VNumber n)
  show ?thesis
  proof (cases "intLiteral n")
    case None
    from ParseInt_not_literal[OF None] show ?thesis
      by (auto simp: VNumber intSwitch_def None split: prod.splits)
  next
    case (Some z)
    consider "z < - (2 ^ 63)" | "- (2 ^ 63) \<le> z \<and> z < 2 ^ 63" | "2 ^ 63 \<le> z" by linarith
    then show ?thesis
    proof cases
      case 1
      from ParseInt_too_small[OF Some 1] 1 show ?thesis
        by (simp add: VNumber intSwitch_def Some)
    next
      case 2
      then have "ParseInt n = (word_of_int z, None)" using ParseInt_in_range[OF Some] by simp
      with 2 show ?thesis by (simp add: VNumber intSwitch_def Some)
    next
      case 3
      from ParseInt_too_big[OF Some 3] 3 show ?thesis
        by (simp add: VNumber intSwitch_def Some)
    qed
  qed
next
  case (VFloat64 f)
  assume nb: "\<not> floatBeyondInt64 v"
  show ?thesis
  proof (cases f)
    case (Finite x)
    with nb VFloat64 have r: "- (2 ^ 63) \<le> x" "x < 2 ^ 63" by simp_all
    show ?thesis
    proof (cases "x = of_int \<lfloor>x\<rfloor>")
      case True
      then have t: "trunc x = \<lfloor>x\<rfloor>" by (rule trunc_whole)
      from r have fr: "- (2 ^ 63) \<le> \<lfloor>x\<rfloor>" "\<lfloor>x\<rfloor> < 2 ^ 63"
        by (simp_all add: le_floor_iff floor_less_iff)
      from True have x: "of_int \<lfloor>x\<rfloor> = x" by simp
      show ?thesis
        using True fr
        by (simp add: VFloat64 Finite intSwitch_def int64_of_float_def float_of_int64_def t
            sint_word_of_int_64 x)
    next
      case False
      have tr: "- (2 ^ 63) \<le> trunc x" "trunc x < 2 ^ 63"
        using r by (auto simp: trunc_def le_floor_iff floor_less_iff le_ceiling_iff ceiling_less_iff)
      from False have "x \<noteq> of_int (trunc x)" using whole_trunc by blast
      then show ?thesis
        using False tr
        by (simp add: VFloat64 Finite intSwitch_def int64_of_float_def float_of_int64_def
            sint_word_of_int_64)
    qed
  qed (simp_all add: VFloat64 intSwitch_def int64_of_float_def float_of_int64_def)
qed (simp_all add: intSwitch_def sint_scast_64)


lemma wholeValue_range:
  "wholeValue v = Some z \<Longrightarrow> \<not> floatBeyondInt64 v \<Longrightarrow> - (2 ^ 63) \<le> z \<and> z < 2 ^ 63"
proof (induction v rule: wholeValue.induct)
  case (1 i)
  then show ?case using sint_ge[of i] sint_lt[of i] by simp
next
  case (2 i)
  then show ?case using sint_ge[of i] sint_lt[of i] by simp
next
  case (3 i)
  then show ?case using sint_ge[of i] sint_lt[of i] by simp
next
  case (4 i)
  then show ?case using sint_ge[of i] sint_lt[of i] by simp
next
  case (5 i)
  then show ?case using sint_ge[of i] sint_lt[of i] by simp
next
  case (6 x)
  then show ?case by (auto simp: le_floor_iff floor_less_iff split: if_splits)
next
  case (7 n)
  then show ?case by (auto split: option.splits if_splits)
qed simp_all

lemma validateIntValue_whole:
  assumes "\<not> floatBeyondInt64 v"
  shows "validateIntValue v k path =
     (case wholeValue v of
        None \<Rightarrow> Some (MustBeInteger path)
      | Some z \<Rightarrow>
          (case signedBits k of
             None \<Rightarrow> None
           | Some n \<Rightarrow>
               if - (2 ^ (n - 1)) \<le> z \<and> z \<le> 2 ^ (n - 1) - 1 then None
               else Some (OutOfRange path (kindName k))))"
proof -
  obtain intVal isInt where sw: "intSwitch v = (intVal, isInt)" by (cases "intSwitch v")
  show ?thesis
  proof (cases "wholeValue v")
    case None
    with intSwitch_whole[OF assms] sw have "\<not> isInt" by simp
    with sw None show ?thesis by (simp add: validateIntValue_def)
  next
    case (Some z)
    from wholeValue_range[OF Some assms] have z: "sint (word_of_int z :: 64 word) = z"
      by (simp add: sint_word_of_int_64)
    from intSwitch_whole[OF assms] sw Some have "isInt" "intVal = word_of_int z" by simp_all
    with sw Some z show ?thesis
      by (cases k) (auto simp: validateIntValue_def)
  qed
qed

lemma validateValue_signed:
  "signedKind k \<Longrightarrow> v \<noteq> VNil \<Longrightarrow>
     validateValue pf v (Type k opt st ar) path = validateIntValue v k path"
  by (auto simp: signedKind_def)

text \<open>
  C2, as the code has it. For a field of a signed integer kind, a value that is not nil goes
  through \<^verbatim>\<open>validateIntValue\<close>. A whole number given as a signed integer of Go, as a
  \<^verbatim>\<open>float64\<close> with no fractional part or as a \<^verbatim>\<open>json.Number\<close> that is an integer literal of
  an \<^verbatim>\<open>int64\<close> is accepted when the kind has no range check (\<^verbatim>\<open>int\<close>, \<^verbatim>\<open>int64\<close>) and
  otherwise when it lies in \<open>[-2^(n-1), 2^(n-1) - 1]\<close>, with the error "value out of range"
  outside. Every other value gets "must be an integer": another dynamic type (the unsigned
  integers and \<^verbatim>\<open>float32\<close> among them), a \<^verbatim>\<open>float64\<close> with a fractional part, and a
  \<^verbatim>\<open>json.Number\<close> that is not an integer literal of an \<^verbatim>\<open>int64\<close>, such as \<^verbatim>\<open>1.0\<close>. A
  \<^verbatim>\<open>float64\<close> beyond the \<^verbatim>\<open>int64\<close> range, whose conversion Go leaves to the implementation,
  is left out.
\<close>

theorem signed_kinds_whole_numbers_and_ranges:
  "(\<not> floatBeyondInt64 v \<longrightarrow>
      validateIntValue v k path =
        (case wholeValue v of
           None \<Rightarrow> Some (MustBeInteger path)
         | Some z \<Rightarrow>
             (case signedBits k of
                None \<Rightarrow> None
              | Some n \<Rightarrow>
                  if - (2 ^ (n - 1)) \<le> z \<and> z \<le> 2 ^ (n - 1) - 1 then None
                  else Some (OutOfRange path (kindName k)))))
   \<and> (signedKind k \<longrightarrow> v \<noteq> VNil \<longrightarrow>
        validateValue pf v (Type k opt st ar) path = validateIntValue v k path)"
  using validateIntValue_whole[of v k path] validateValue_signed[of k v pf opt st ar path]
  by blast

theorem signed_kinds_whole_numbers_and_ranges_witness:
  "validateIntValue (VInt 127) KInt8 ''f'' = None
   \<and> validateIntValue (VInt 128) KInt8 ''f'' = Some (OutOfRange ''f'' ''int8'')
   \<and> validateIntValue (VInt (- 128)) KInt8 ''f'' = None
   \<and> validateIntValue (VInt (- 129)) KInt8 ''f'' = Some (OutOfRange ''f'' ''int8'')
   \<and> validateIntValue (VFloat64 (Finite 32767)) KInt16 ''f'' = None
   \<and> validateIntValue (VFloat64 (Finite 32768)) KInt16 ''f'' = Some (OutOfRange ''f'' ''int16'')
   \<and> validateIntValue (VNumber ''2147483647'') KInt32 ''f'' = None
   \<and> validateIntValue (VNumber ''2147483648'') KInt32 ''f'' = Some (OutOfRange ''f'' ''int32'')
   \<and> validateIntValue (VNumber ''-2147483649'') KInt32 ''f'' = Some (OutOfRange ''f'' ''int32'')
   \<and> validateIntValue (VInt64 9223372036854775807) KInt64 ''f'' = None
   \<and> validateIntValue (VInt64 (- 9223372036854775808)) KInt ''f'' = None
   \<and> validateIntValue (VFloat64 (Finite (5 / 2))) KInt ''f'' = Some (MustBeInteger ''f'')
   \<and> validateIntValue (VString ''7'') KInt ''f'' = Some (MustBeInteger ''f'')
   \<and> validateValue (\<lambda>_. (Finite 0, False)) (VFloat64 (Finite 30)) (Type KInt32 False None None) ''f''
       = None"
proof -
  note t = signed_kinds_whole_numbers_and_ranges
  have lit: "intLiteral ''2147483647'' = Some 2147483647"
    "intLiteral ''2147483648'' = Some 2147483648"
    "intLiteral ''-2147483649'' = Some (- 2147483649)"
    by (simp_all add: intLiteral_def allDigits_def isDigit_def decFrom_def digitVal_def)
  have "validateIntValue (VInt 127) KInt8 ''f'' = None"
    using t[of "VInt 127" KInt8 "''f''"] by simp
  moreover have "validateIntValue (VInt 128) KInt8 ''f'' = Some (OutOfRange ''f'' ''int8'')"
    using t[of "VInt 128" KInt8 "''f''"] by simp
  moreover have "validateIntValue (VInt (- 128)) KInt8 ''f'' = None"
    using t[of "VInt (- 128)" KInt8 "''f''"] by simp
  moreover have "validateIntValue (VInt (- 129)) KInt8 ''f'' = Some (OutOfRange ''f'' ''int8'')"
    using t[of "VInt (- 129)" KInt8 "''f''"] by simp
  moreover have "validateIntValue (VFloat64 (Finite 32767)) KInt16 ''f'' = None"
    using t[of "VFloat64 (Finite 32767)" KInt16 "''f''"] by simp
  moreover have "validateIntValue (VFloat64 (Finite 32768)) KInt16 ''f''
      = Some (OutOfRange ''f'' ''int16'')"
    using t[of "VFloat64 (Finite 32768)" KInt16 "''f''"] by simp
  moreover have "validateIntValue (VNumber ''2147483647'') KInt32 ''f'' = None"
    using t[of "VNumber ''2147483647''" KInt32 "''f''"] lit by simp
  moreover have "validateIntValue (VNumber ''2147483648'') KInt32 ''f''
      = Some (OutOfRange ''f'' ''int32'')"
    using t[of "VNumber ''2147483648''" KInt32 "''f''"] lit by simp
  moreover have "validateIntValue (VNumber ''-2147483649'') KInt32 ''f''
      = Some (OutOfRange ''f'' ''int32'')"
    using t[of "VNumber ''-2147483649''" KInt32 "''f''"] lit by simp
  moreover have "validateIntValue (VInt64 9223372036854775807) KInt64 ''f'' = None"
    using t[of "VInt64 9223372036854775807" KInt64 "''f''"] by simp
  moreover have "validateIntValue (VInt64 (- 9223372036854775808)) KInt ''f'' = None"
    using t[of "VInt64 (- 9223372036854775808)" KInt "''f''"] by simp
  moreover have "validateIntValue (VFloat64 (Finite (5 / 2))) KInt ''f'' = Some (MustBeInteger ''f'')"
    using t[of "VFloat64 (Finite (5 / 2))" KInt "''f''"] by simp
  moreover have "validateIntValue (VString ''7'') KInt ''f'' = Some (MustBeInteger ''f'')"
    using t[of "VString ''7''" KInt "''f''"] by simp
  moreover have "validateValue (\<lambda>_. (Finite 0, False)) (VFloat64 (Finite 30))
      (Type KInt32 False None None) ''f'' = None"
    using t[of "VFloat64 (Finite 30)" KInt32 "''f''" "\<lambda>_. (Finite 0, False)" False None None]
    by (simp add: signedKind_def)
  ultimately show ?thesis by blast
qed

theorem whole_number_rejected_counterexample:
  "Validate (\<lambda>_. (Finite 0, False)) [(''n'', VNumber ''1.0'')]
     (Some (Type KStruct False (Some [(''n'', Type KInt False None None)]) None))
     = [MustBeInteger ''n'']
   \<and> Validate (\<lambda>_. (Finite 0, False)) [(''n'', VUint64 9223372036854775808)]
     (Some (Type KStruct False (Some [(''n'', Type KInt64 False None None)]) None))
     = [MustBeInteger ''n'']"
  by (simp add: Validate_def lookup_def validateIntValue_def intSwitch_def ParseInt_def
      ParseUint_def isDigit_def digitVal_def maxUint64_def)


text \<open>
  The same for the check of an unsigned kind: a whole number that is not negative, given as
  an unsigned or signed integer of Go, as a \<^verbatim>\<open>float64\<close> with no fractional part or as a
  \<^verbatim>\<open>json.Number\<close> that is an integer literal. \<open>negativeValue\<close> holds of the numbers below
  zero in any representation.
\<close>

fun naturalValue :: "val \<Rightarrow> int option" where
  "naturalValue (VUint u) = Some (uint u)"
| "naturalValue (VUint8 u) = Some (uint u)"
| "naturalValue (VUint16 u) = Some (uint u)"
| "naturalValue (VUint32 u) = Some (uint u)"
| "naturalValue (VUint64 u) = Some (uint u)"
| "naturalValue (VInt i) = (if 0 \<le> sint i then Some (sint i) else None)"
| "naturalValue (VInt8 i) = (if 0 \<le> sint i then Some (sint i) else None)"
| "naturalValue (VInt16 i) = (if 0 \<le> sint i then Some (sint i) else None)"
| "naturalValue (VInt32 i) = (if 0 \<le> sint i then Some (sint i) else None)"
| "naturalValue (VInt64 i) = (if 0 \<le> sint i then Some (sint i) else None)"
| "naturalValue (VFloat64 (Finite x)) =
     (if 0 \<le> x \<and> x = of_int \<lfloor>x\<rfloor> then Some \<lfloor>x\<rfloor> else None)"
| "naturalValue (VNumber n) =
     (case intLiteral n of Some z \<Rightarrow> if 0 \<le> z then Some z else None | None \<Rightarrow> None)"
| "naturalValue _ = None"

fun negativeValue :: "val \<Rightarrow> bool" where
  "negativeValue (VInt i) = (sint i < 0)"
| "negativeValue (VInt8 i) = (sint i < 0)"
| "negativeValue (VInt16 i) = (sint i < 0)"
| "negativeValue (VInt32 i) = (sint i < 0)"
| "negativeValue (VInt64 i) = (sint i < 0)"
| "negativeValue (VFloat32 f) = float_less f (Finite 0)"
| "negativeValue (VFloat64 f) = float_less f (Finite 0)"
| "negativeValue (VNumber n) = (case intLiteral n of Some z \<Rightarrow> z < 0 | None \<Rightarrow> False)"
| "negativeValue _ = False"

fun floatBeyondUint64 :: "val \<Rightarrow> bool" where
  "floatBeyondUint64 (VFloat64 (Finite x)) = (2 ^ 64 \<le> x)"
| "floatBeyondUint64 _ = False"

fun numberBeyondInt64 :: "val \<Rightarrow> bool" where
  "numberBeyondInt64 (VNumber n) = (case intLiteral n of Some z \<Rightarrow> 2 ^ 63 \<le> z | None \<Rightarrow> False)"
| "numberBeyondInt64 _ = False"

lemma uint_scast_64:
  "0 \<le> sint (a :: 8 word) \<Longrightarrow> uint (scast a :: 64 word) = sint a"
  "0 \<le> sint (b :: 16 word) \<Longrightarrow> uint (scast b :: 64 word) = sint b"
  "0 \<le> sint (c :: 32 word) \<Longrightarrow> uint (scast c :: 64 word) = sint c"
  using uint_eq_sint[of "scast a :: 64 word"] uint_eq_sint[of "scast b :: 64 word"]
    uint_eq_sint[of "scast c :: 64 word"]
  by (simp_all add: sint_scast_64)

lemma uintSwitch_natural:
  assumes "\<not> floatBeyondUint64 v" "\<not> numberBeyondInt64 v" "uintSwitch v = (uintVal, isUint)"
  shows "(case naturalValue v of None \<Rightarrow> \<not> isUint | Some z \<Rightarrow> isUint \<and> uint uintVal = z)"
proof (cases v)
  case (VNumber n)
  show ?thesis
  proof (cases "intLiteral n")
    case None
    from ParseInt_not_literal[OF None] assms(3) show ?thesis
      by (auto simp: VNumber uintSwitch_def None split: prod.splits if_splits)
  next
    case (Some z)
    from assms(2) have nb: "z < 2 ^ 63" by (simp add: VNumber Some)
    consider "z < - (2 ^ 63)" | "- (2 ^ 63) \<le> z \<and> z < 0" | "0 \<le> z" by linarith
    then show ?thesis
    proof cases
      case 1
      have "sint (word_of_int (- (2 ^ 63)) :: 64 word) = - (2 ^ 63)"
        by (simp add: sint_word_of_int_64)
      with ParseInt_too_small[OF Some 1] 1 assms(3) show ?thesis
        by (auto simp: VNumber uintSwitch_def Some)
    next
      case 2
      then have p: "ParseInt n = (word_of_int z, None)" using ParseInt_in_range[OF Some] by simp
      from 2 have "sint (word_of_int z :: 64 word) = z" by (simp add: sint_word_of_int_64)
      with p 2 assms(3) show ?thesis
        by (auto simp: VNumber uintSwitch_def Some)
    next
      case 3
      with nb have p: "ParseInt n = (word_of_int z, None)" using ParseInt_in_range[OF Some] by simp
      from 3 nb have "sint (word_of_int z :: 64 word) = z" "uint (word_of_int z :: 64 word) = z"
        by (simp_all add: sint_word_of_int_64 uint_word_of_int_64)
      with p 3 assms(3) show ?thesis
        by (auto simp: VNumber uintSwitch_def Some)
    qed
  qed
next
  case (VFloat64 f)
  show ?thesis
  proof (cases f)
    case (Finite x)
    with assms(1) VFloat64 have r: "x < 2 ^ 64" by simp
    show ?thesis
    proof (cases "0 \<le> x")
      case neg: False
      with assms(3) show ?thesis
        by (auto simp: VFloat64 Finite uintSwitch_def float_le_def)
    next
      case pos: True
      show ?thesis
      proof (cases "x = of_int \<lfloor>x\<rfloor>")
        case True
        then have t: "trunc x = \<lfloor>x\<rfloor>" by (rule trunc_whole)
        from r pos have fr: "0 \<le> \<lfloor>x\<rfloor>" "\<lfloor>x\<rfloor> < 2 ^ 64"
          by (simp_all add: le_floor_iff floor_less_iff)
        from True have x: "of_int \<lfloor>x\<rfloor> = x" by simp
        from fr have u: "uint (word_of_int \<lfloor>x\<rfloor> :: 64 word) = \<lfloor>x\<rfloor>"
          by (simp add: uint_word_of_int_64)
        have le: "float_le (Finite 0) (Finite x)"
          using pos by (auto simp: float_le_def)
        have conv: "uint64_of_float (Finite x) = word_of_int \<lfloor>x\<rfloor>"
          using fr by (simp add: uint64_of_float_def t)
        have rt: "float_of_uint64 (word_of_int \<lfloor>x\<rfloor>) = Finite x"
          by (simp add: float_of_uint64_def u x)
        have "uintSwitch v = (word_of_int \<lfloor>x\<rfloor>, True)"
          by (simp add: VFloat64 Finite uintSwitch_def le conv rt)
        with assms(3) u True pos show ?thesis
          by (simp add: VFloat64 Finite)
      next
        case False
        have tr: "0 \<le> trunc x" "trunc x < 2 ^ 64"
          using r pos by (auto simp: trunc_def le_floor_iff floor_less_iff)
        then have u: "uint (word_of_int (trunc x) :: 64 word) = trunc x"
          by (simp add: uint_word_of_int_64)
        from False have ne: "x \<noteq> of_int (trunc x)" using whole_trunc by blast
        have conv: "uint64_of_float (Finite x) = word_of_int (trunc x)"
          using tr by (simp add: uint64_of_float_def)
        have rt: "float_of_uint64 (word_of_int (trunc x)) = Finite (of_int (trunc x))"
          by (simp add: float_of_uint64_def u)
        have "uintSwitch v = (0, False)"
          using ne by (simp add: VFloat64 Finite uintSwitch_def conv rt)
        with assms(3) False show ?thesis
          by (simp add: VFloat64 Finite)
      qed
    qed
  next
    case PosInf
    with assms(3) show ?thesis
      by (auto simp: VFloat64 uintSwitch_def uint64_of_float_def float_of_uint64_def float_le_def)
  next
    case NegInf
    with assms(3) show ?thesis
      by (auto simp: VFloat64 uintSwitch_def uint64_of_float_def float_of_uint64_def float_le_def)
  next
    case NaN
    with assms(3) show ?thesis
      by (auto simp: VFloat64 uintSwitch_def uint64_of_float_def float_of_uint64_def float_le_def)
  qed
qed (use assms(3) in \<open>auto simp: uintSwitch_def uint_ucast_64 uint_scast_64 uint_eq_sint\<close>)

lemma validateUintValue_natural:
  assumes "\<not> floatBeyondUint64 v" "\<not> numberBeyondInt64 v"
  shows "validateUintValue v k path =
     (case naturalValue v of
        None \<Rightarrow> Some (MustBeNonNegativeInteger path)
      | Some z \<Rightarrow>
          (case unsignedBits k of
             None \<Rightarrow> None
           | Some n \<Rightarrow>
               if z \<le> 2 ^ n - 1 then None else Some (OutOfRange path (kindName k))))"
proof -
  obtain uintVal isUint where sw: "uintSwitch v = (uintVal, isUint)" by (cases "uintSwitch v")
  note n = uintSwitch_natural[OF assms sw]
  show ?thesis
  proof (cases "naturalValue v")
    case None
    with n sw show ?thesis by (simp add: validateUintValue_def)
  next
    case (Some z)
    with n have "isUint" "uint uintVal = z" by simp_all
    with sw Some show ?thesis
      by (cases k) (auto simp: validateUintValue_def)
  qed
qed

lemma validateUintValue_negative:
  assumes "negativeValue v"
  shows "validateUintValue v k path = Some (MustBeNonNegativeInteger path)"
proof -
  have "\<not> snd (uintSwitch v)"
  proof (cases v)
    case (VNumber n)
    with assms obtain z where lit: "intLiteral n = Some z" and z: "z < 0"
      by (auto split: option.splits)
    show ?thesis
    proof (cases "z < - (2 ^ 63)")
      case True
      have "sint (word_of_int (- (2 ^ 63)) :: 64 word) = - (2 ^ 63)"
        by (simp add: sint_word_of_int_64)
      with ParseInt_too_small[OF lit True] show ?thesis
        by (simp add: VNumber uintSwitch_def)
    next
      case False
      with z have p: "ParseInt n = (word_of_int z, None)" using ParseInt_in_range[OF lit] by simp
      from False z have "sint (word_of_int z :: 64 word) = z" by (simp add: sint_word_of_int_64)
      with p z show ?thesis by (simp add: VNumber uintSwitch_def)
    qed
  next
    case (VFloat64 f)
    with assms show ?thesis
      by (cases f) (auto simp: uintSwitch_def float_le_def)
  qed (use assms in \<open>auto simp: uintSwitch_def\<close>)
  then show ?thesis
    by (cases "uintSwitch v") (simp add: validateUintValue_def)
qed

lemma validateValue_unsigned:
  "unsignedKind k \<Longrightarrow> v \<noteq> VNil \<Longrightarrow>
     validateValue pf v (Type k opt st ar) path = validateUintValue v k path"
  by (auto simp: unsignedKind_def)

text \<open>
  C3, as the code has it. For a field of an unsigned integer kind, a value that is not nil
  goes through \<^verbatim>\<open>validateUintValue\<close>. A whole number that is not negative, given as an unsigned
  or signed integer of Go, as a \<^verbatim>\<open>float64\<close> with no fractional part or as a \<^verbatim>\<open>json.Number\<close>
  that is an integer literal, is accepted when the kind has no range check (\<^verbatim>\<open>uint\<close>,
  \<^verbatim>\<open>uint64\<close>) and otherwise when it is at most \<open>2^n - 1\<close>, with the error "value out of
  range" above. Every other value gets "must be a non-negative integer": every negative
  number, another dynamic type (\<^verbatim>\<open>float32\<close> among them), a \<^verbatim>\<open>float64\<close> with a fractional
  part, and a \<^verbatim>\<open>json.Number\<close> that is not an integer literal, such as \<^verbatim>\<open>1.0\<close>. A
  \<^verbatim>\<open>float64\<close> of \<open>2^64\<close> or more, whose conversion Go leaves to the implementation, and a
  \<^verbatim>\<open>json.Number\<close> of \<open>2^63\<close> or more are left out.
\<close>

theorem unsigned_kinds_whole_numbers_and_ranges:
  "(\<not> floatBeyondUint64 v \<longrightarrow> \<not> numberBeyondInt64 v \<longrightarrow>
      validateUintValue v k path =
        (case naturalValue v of
           None \<Rightarrow> Some (MustBeNonNegativeInteger path)
         | Some z \<Rightarrow>
             (case unsignedBits k of
                None \<Rightarrow> None
              | Some n \<Rightarrow>
                  if z \<le> 2 ^ n - 1 then None else Some (OutOfRange path (kindName k)))))
   \<and> (negativeValue v \<longrightarrow> validateUintValue v k path = Some (MustBeNonNegativeInteger path))
   \<and> (unsignedKind k \<longrightarrow> v \<noteq> VNil \<longrightarrow>
        validateValue pf v (Type k opt st ar) path = validateUintValue v k path)"
  using validateUintValue_natural[of v k path] validateUintValue_negative[of v k path]
    validateValue_unsigned[of k v pf opt st ar path]
  by blast

theorem unsigned_kinds_whole_numbers_and_ranges_witness:
  "validateUintValue (VInt 255) KUint8 ''f'' = None
   \<and> validateUintValue (VInt 256) KUint8 ''f'' = Some (OutOfRange ''f'' ''uint8'')
   \<and> validateUintValue (VInt (- 1)) KUint8 ''f'' = Some (MustBeNonNegativeInteger ''f'')
   \<and> validateUintValue (VFloat64 (Finite 65535)) KUint16 ''f'' = None
   \<and> validateUintValue (VFloat64 (Finite 65536)) KUint16 ''f'' = Some (OutOfRange ''f'' ''uint16'')
   \<and> validateUintValue (VNumber ''4294967295'') KUint32 ''f'' = None
   \<and> validateUintValue (VNumber ''4294967296'') KUint32 ''f'' = Some (OutOfRange ''f'' ''uint32'')
   \<and> validateUintValue (VNumber ''-5'') KUint64 ''f'' = Some (MustBeNonNegativeInteger ''f'')
   \<and> validateUintValue (VUint64 18446744073709551615) KUint64 ''f'' = None
   \<and> validateUintValue (VUint64 18446744073709551615) KUint ''f'' = None
   \<and> validateValue (\<lambda>_. (Finite 0, False)) (VInt 30) (Type KUint32 False None None) ''f'' = None"
proof -
  note t = unsigned_kinds_whole_numbers_and_ranges
  have lit: "intLiteral ''4294967295'' = Some 4294967295"
    "intLiteral ''4294967296'' = Some 4294967296"
    "intLiteral ''-5'' = Some (- 5)"
    by (simp_all add: intLiteral_def allDigits_def isDigit_def decFrom_def digitVal_def)
  have "validateUintValue (VInt 255) KUint8 ''f'' = None"
    using t[of "VInt 255" KUint8 "''f''"] by simp
  moreover have "validateUintValue (VInt 256) KUint8 ''f'' = Some (OutOfRange ''f'' ''uint8'')"
    using t[of "VInt 256" KUint8 "''f''"] by simp
  moreover have "validateUintValue (VInt (- 1)) KUint8 ''f'' = Some (MustBeNonNegativeInteger ''f'')"
    using t[of "VInt (- 1)" KUint8 "''f''"] by simp
  moreover have "validateUintValue (VFloat64 (Finite 65535)) KUint16 ''f'' = None"
    using t[of "VFloat64 (Finite 65535)" KUint16 "''f''"] by simp
  moreover have "validateUintValue (VFloat64 (Finite 65536)) KUint16 ''f''
      = Some (OutOfRange ''f'' ''uint16'')"
    using t[of "VFloat64 (Finite 65536)" KUint16 "''f''"] by simp
  moreover have "validateUintValue (VNumber ''4294967295'') KUint32 ''f'' = None"
    using t[of "VNumber ''4294967295''" KUint32 "''f''"] lit by simp
  moreover have "validateUintValue (VNumber ''4294967296'') KUint32 ''f''
      = Some (OutOfRange ''f'' ''uint32'')"
    using t[of "VNumber ''4294967296''" KUint32 "''f''"] lit by simp
  moreover have "validateUintValue (VNumber ''-5'') KUint64 ''f''
      = Some (MustBeNonNegativeInteger ''f'')"
    using t[of "VNumber ''-5''" KUint64 "''f''"] lit by simp
  moreover have "validateUintValue (VUint64 18446744073709551615) KUint64 ''f'' = None"
    using t[of "VUint64 18446744073709551615" KUint64 "''f''"] by simp
  moreover have "validateUintValue (VUint64 18446744073709551615) KUint ''f'' = None"
    using t[of "VUint64 18446744073709551615" KUint "''f''"] by simp
  moreover have "validateValue (\<lambda>_. (Finite 0, False)) (VInt 30)
      (Type KUint32 False None None) ''f'' = None"
    using t[of "VInt 30" KUint32 "''f''" "\<lambda>_. (Finite 0, False)" False None None]
    by (simp add: unsignedKind_def)
  ultimately show ?thesis by blast
qed

theorem unsigned_whole_number_rejected_counterexample:
  "Validate (\<lambda>_. (Finite 0, False)) [(''n'', VNumber ''1.0'')]
     (Some (Type KStruct False (Some [(''n'', Type KUint False None None)]) None))
     = [MustBeNonNegativeInteger ''n'']"
  by (simp add: Validate_def lookup_def validateUintValue_def uintSwitch_def ParseInt_def
      ParseUint_def isDigit_def digitVal_def maxUint64_def)

end
